theory Spec2Isabelle
  imports Complex_Main "HOL-Library.AList" "HOL-Library.Multiset"
begin

section \<open>JavaScript values used by the log service\<close>

text \<open>
  A JavaScript string is modelled as a \<^typ>\<open>string\<close>; one \<^typ>\<open>char\<close> stands for one
  UTF-16 code unit below 256. A time value is an \<^typ>\<open>int\<close> (milliseconds since the epoch);
  a Date object is an \<^typ>\<open>int option\<close>, where \<open>None\<close> is the invalid date (time value NaN).
  The functions of this section follow the ECMAScript definitions of the Date built-ins
  that \<open>logProcessor.js\<close> and \<open>batchProcessor.js\<close> call.
\<close>

subsection \<open>Decimal digits\<close>

definition digitChar :: "nat \<Rightarrow> char" where
  "digitChar d = char_of (48 + d)"

definition isDigit :: "char \<Rightarrow> bool" where
  "isDigit c = (48 \<le> (of_char c :: nat) \<and> (of_char c :: nat) \<le> 57)"

definition digitVal :: "char \<Rightarrow> nat" where
  "digitVal c = of_char c - 48"

text \<open>\<open>String(n)\<close> for a non-negative integer \<open>n\<close>.\<close>

fun decimal :: "nat \<Rightarrow> string" where
  "decimal n = (if n < 10 then [digitChar n] else decimal (n div 10) @ [digitChar (n mod 10)])"

declare decimal.simps [simp del]

text \<open>\<open>String(i)\<close> for an integer \<open>i\<close>.\<close>

definition String_int :: "int \<Rightarrow> string" where
  "String_int i = (if i < 0 then CHR ''-'' # decimal (nat (- i)) else decimal (nat i))"

text \<open>\<open>s.padStart(n, c)\<close> for a one-character filler.\<close>

definition padStart :: "nat \<Rightarrow> char \<Rightarrow> string \<Rightarrow> string" where
  "padStart n c s = replicate (n - length s) c @ s"

text \<open>The number a string of digits denotes (\<open>Number\<close> and \<open>parseInt(_, 10)\<close> on digits).\<close>

definition digitsVal :: "string \<Rightarrow> nat" where
  "digitsVal s = foldl (\<lambda>acc c. acc * 10 + digitVal c) 0 s"

text \<open>The same for a field of a date string: \<open>None\<close> when some character is not a digit or the
  field is empty.\<close>

definition parseDigits :: "string \<Rightarrow> nat option" where
  "parseDigits s = (if s \<noteq> [] \<and> list_all isDigit s then Some (digitsVal s) else None)"

subsection \<open>Time values: days, years, months\<close>

abbreviation msPerDay :: int where "msPerDay \<equiv> 86400000"
abbreviation msPerHour :: int where "msPerHour \<equiv> 3600000"
abbreviation msPerMinute :: int where "msPerMinute \<equiv> 60000"
abbreviation msPerSecond :: int where "msPerSecond \<equiv> 1000"

definition Day :: "int \<Rightarrow> int" where
  "Day t = t div msPerDay"

definition TimeWithinDay :: "int \<Rightarrow> int" where
  "TimeWithinDay t = t mod msPerDay"

definition DaysInYear :: "int \<Rightarrow> int" where
  "DaysInYear y =
     (if y mod 4 \<noteq> 0 then 365 else if y mod 100 \<noteq> 0 then 366
      else if y mod 400 \<noteq> 0 then 365 else 366)"

definition DayFromYear :: "int \<Rightarrow> int" where
  "DayFromYear y =
     365 * (y - 1970) + (y - 1969) div 4 - (y - 1901) div 100 + (y - 1601) div 400"

text \<open>Each year starts \<open>DaysInYear\<close> days after the one before.\<close>

lemma div_succ:
  fixes a c :: int
  assumes "0 < c"
  shows "(a + 1) div c = a div c + (if (a + 1) mod c = 0 then 1 else 0)"
proof -
  have eq: "a = c * (a div c) + a mod c" by simp
  have lo: "0 \<le> a mod c" and hi: "a mod c < c" using assms by simp_all
  have e: "a + 1 = c * (a div c) + (a mod c + 1)" using eq by linarith
  show ?thesis
  proof (cases "a mod c + 1 < c")
    case True
    have d: "(a + 1) div c = a div c"
      by (rule int_div_pos_eq [OF e]) (use lo True in simp_all)
    have m: "(a + 1) mod c = a mod c + 1"
      by (rule int_mod_pos_eq [OF e]) (use lo True in simp_all)
    show ?thesis using d m lo by simp
  next
    case False
    then have r: "a mod c + 1 = c" using hi by linarith
    from e have "a + 1 = c * (a div c) + c" using r by linarith
    moreover have "c * (a div c + 1) = c * (a div c) + c" by (simp add: distrib_left)
    ultimately have e': "a + 1 = c * (a div c + 1) + 0" by linarith
    have d: "(a + 1) div c = a div c + 1"
      by (rule int_div_pos_eq [OF e']) (use assms in simp_all)
    have m: "(a + 1) mod c = 0"
      by (rule int_mod_pos_eq [OF e']) (use assms in simp_all)
    show ?thesis using d m by simp
  qed
qed

lemma DayFromYear_Suc: "DayFromYear (y + 1) = DayFromYear y + DaysInYear y"
proof -
  define da :: int where "da = (if y mod 4 = 0 then 1 else 0)"
  define db :: int where "db = (if y mod 100 = 0 then 1 else 0)"
  define dc :: int where "dc = (if y mod 400 = 0 then 1 else 0)"
  define A B C where "A = (y - 1969) div 4" and "B = (y - 1901) div 100"
    and "C = (y - 1601) div 400"
  define A' B' C' where "A' = (y - 1968) div 4" and "B' = (y - 1900) div 100"
    and "C' = (y - 1600) div 400"
  have m4: "(y - 1968) mod 4 = y mod 4" using mod_diff_eq [of y 4 1968] by simp
  have m100: "(y - 1900) mod 100 = y mod 100" using mod_diff_eq [of y 100 1900] by simp
  have m400: "(y - 1600) mod 400 = y mod 400" using mod_diff_eq [of y 400 1600] by simp
  have m100_4: "y mod 100 = 0 \<Longrightarrow> y mod 4 = 0" using mod_mod_cancel [of 4 100 y] by simp
  have m400_100: "y mod 400 = 0 \<Longrightarrow> y mod 100 = 0"
    using mod_mod_cancel [of 100 400 y] by simp
  have a: "A' = A + da"
    unfolding da_def A_def A'_def using div_succ [of 4 "y - 1969"] m4 by simp
  have b: "B' = B + db"
    unfolding db_def B_def B'_def using div_succ [of 100 "y - 1901"] m100 by simp
  have c: "C' = C + dc"
    unfolding dc_def C_def C'_def using div_succ [of 400 "y - 1601"] m400 by simp
  have d1: "DayFromYear (y + 1) = 365 * (y - 1969) + A' - B' + C'"
    by (simp add: DayFromYear_def A'_def B'_def C'_def)
  have d0: "DayFromYear y = 365 * (y - 1970) + A - B + C"
    by (simp add: DayFromYear_def A_def B_def C_def)
  have "DayFromYear (y + 1) = DayFromYear y + (365 + da - db + dc)"
    unfolding d1 d0 a b c by (simp add: algebra_simps)
  moreover have "365 + da - db + dc = DaysInYear y"
  proof (cases "y mod 4 = 0")
    case False
    then show ?thesis
      using m100_4 m400_100 by (auto simp: da_def db_def dc_def DaysInYear_def)
  next
    case True
    then show ?thesis
      using m400_100 by (auto simp: da_def db_def dc_def DaysInYear_def)
  qed
  ultimately show ?thesis by simp
qed

lemma DaysInYear_cases: "DaysInYear y = 365 \<or> DaysInYear y = 366"
  by (simp add: DaysInYear_def)

text \<open>
  ECMAScript defines \<open>YearFromTime(t)\<close> as the largest \<open>y\<close> whose first day is not after
  \<open>Day(t)\<close>. It is computed here by counting up from a year that is certainly not too large.
\<close>

function yearUp :: "int \<Rightarrow> int \<Rightarrow> int" where
  "yearUp d y = (if DayFromYear (y + 1) \<le> d then yearUp d (y + 1) else y)"
  by pat_completeness auto
termination
proof (relation "measure (\<lambda>(d, y). nat (d - DayFromYear y))")
  show "wf (measure (\<lambda>(d, y). nat (d - DayFromYear y)))" by simp
next
  fix d y :: int
  assume le: "DayFromYear (y + 1) \<le> d"
  have "DayFromYear y < DayFromYear (y + 1)"
    using DayFromYear_Suc [of y] DaysInYear_cases [of y] by linarith
  with le show "((d, y + 1), (d, y)) \<in> measure (\<lambda>(d, y). nat (d - DayFromYear y))"
    by simp
qed

declare yearUp.simps [simp del]

definition YearFromTime :: "int \<Rightarrow> int" where
  "YearFromTime t =
     (let d = Day t in yearUp d (1970 + (if 0 \<le> d then d div 366 else d div 365)))"

definition InLeapYear :: "int \<Rightarrow> int" where
  "InLeapYear t = (if DaysInYear (YearFromTime t) = 366 then 1 else 0)"

definition DayWithinYear :: "int \<Rightarrow> int" where
  "DayWithinYear t = Day t - DayFromYear (YearFromTime t)"

text \<open>The day within the year on which month \<open>m\<close> (0 = January) starts, and for \<open>m = 12\<close>
  the length of the year; \<open>l\<close> is 1 in a leap year.\<close>

definition monthStart :: "int \<Rightarrow> int \<Rightarrow> int" where
  "monthStart m l =
     (if m = 0 then 0 else if m = 1 then 31 else if m = 2 then 59 + l
      else if m = 3 then 90 + l else if m = 4 then 120 + l else if m = 5 then 151 + l
      else if m = 6 then 181 + l else if m = 7 then 212 + l else if m = 8 then 243 + l
      else if m = 9 then 273 + l else if m = 10 then 304 + l else if m = 11 then 334 + l
      else 365 + l)"

definition MonthFromTime :: "int \<Rightarrow> int" where
  "MonthFromTime t =
     (let d = DayWithinYear t; l = InLeapYear t in
      if d < 31 then 0 else if d < 59 + l then 1 else if d < 90 + l then 2
      else if d < 120 + l then 3 else if d < 151 + l then 4 else if d < 181 + l then 5
      else if d < 212 + l then 6 else if d < 243 + l then 7 else if d < 273 + l then 8
      else if d < 304 + l then 9 else if d < 334 + l then 10 else 11)"

definition DateFromTime :: "int \<Rightarrow> int" where
  "DateFromTime t = DayWithinYear t - monthStart (MonthFromTime t) (InLeapYear t) + 1"

definition HourFromTime :: "int \<Rightarrow> int" where
  "HourFromTime t = (t div msPerHour) mod 24"

definition MinFromTime :: "int \<Rightarrow> int" where
  "MinFromTime t = (t div msPerMinute) mod 60"

definition SecFromTime :: "int \<Rightarrow> int" where
  "SecFromTime t = (t div msPerSecond) mod 60"

definition msFromTime :: "int \<Rightarrow> int" where
  "msFromTime t = t mod msPerSecond"

definition MakeTime :: "int \<Rightarrow> int \<Rightarrow> int \<Rightarrow> int \<Rightarrow> int" where
  "MakeTime hour minute sec ms =
     hour * msPerHour + minute * msPerMinute + sec * msPerSecond + ms"

text \<open>\<open>MakeDay\<close>: the day number of the first of month \<open>month mod 12\<close> in year
  \<open>year + month div 12\<close>, plus \<open>date - 1\<close>.\<close>

definition MakeDay :: "int \<Rightarrow> int \<Rightarrow> int \<Rightarrow> int" where
  "MakeDay year month date =
     (let ym = year + month div 12; mn = month mod 12 in
      DayFromYear ym + monthStart mn (if DaysInYear ym = 366 then 1 else 0) + date - 1)"

definition MakeDate :: "int \<Rightarrow> int \<Rightarrow> int" where
  "MakeDate day time = day * msPerDay + time"

text \<open>\<open>TimeClip\<close>: a time value further than \<open>8.64e15\<close> ms from the epoch is NaN.\<close>

definition TimeClip :: "int \<Rightarrow> int option" where
  "TimeClip t = (if \<bar>t\<bar> \<le> 8640000000000000 then Some t else None)"

subsection \<open>Date methods\<close>

text \<open>\<open>Date.UTC(year, month, day, hours, minutes, seconds)\<close>; a year from 0 to 99 means 1900 + year.\<close>

definition Date_UTC :: "int \<Rightarrow> int \<Rightarrow> int \<Rightarrow> int \<Rightarrow> int \<Rightarrow> int \<Rightarrow> int option" where
  "Date_UTC year month day hours minutes seconds =
     (let yr = (if 0 \<le> year \<and> year \<le> 99 then 1900 + year else year) in
      TimeClip (MakeDate (MakeDay yr month day) (MakeTime hours minutes seconds 0)))"

text \<open>\<open>date.setUTCHours(date.getUTCHours() + delta)\<close>: on an invalid date both calls give NaN.\<close>

definition addUTCHours :: "int \<Rightarrow> int option \<Rightarrow> int option" where
  "addUTCHours delta date =
     (case date of None \<Rightarrow> None
      | Some t \<Rightarrow>
          TimeClip (MakeDate (Day t)
            (MakeTime (HourFromTime t + delta) (MinFromTime t) (SecFromTime t) (msFromTime t))))"

definition setUTCMilliseconds :: "int \<Rightarrow> int option \<Rightarrow> int option" where
  "setUTCMilliseconds ms date =
     (case date of None \<Rightarrow> None
      | Some t \<Rightarrow>
          TimeClip (MakeDate (Day t)
            (MakeTime (HourFromTime t) (MinFromTime t) (SecFromTime t) ms)))"

definition getUTCMilliseconds :: "int option \<Rightarrow> int option" where
  "getUTCMilliseconds date = (case date of None \<Rightarrow> None | Some t \<Rightarrow> Some (msFromTime t))"

text \<open>The year of an ISO string: four digits from 0 to 9999, else a sign and six digits.\<close>

definition isoYear :: "int \<Rightarrow> string" where
  "isoYear y =
     (if 0 \<le> y \<and> y \<le> 9999 then padStart 4 CHR ''0'' (decimal (nat y))
      else (if y < 0 then CHR ''-'' else CHR ''+'') # padStart 6 CHR ''0'' (decimal (nat \<bar>y\<bar>)))"

definition pad2 :: "int \<Rightarrow> string" where
  "pad2 n = padStart 2 CHR ''0'' (decimal (nat n))"

definition pad3 :: "int \<Rightarrow> string" where
  "pad3 n = padStart 3 CHR ''0'' (decimal (nat n))"

text \<open>\<open>toISOString\<close> of a valid time value: \<open>YYYY-MM-DDTHH:mm:ss.sssZ\<close>.\<close>

definition isoOfTime :: "int \<Rightarrow> string" where
  "isoOfTime t =
     isoYear (YearFromTime t) @ ''-'' @ pad2 (MonthFromTime t + 1) @ ''-'' @ pad2 (DateFromTime t)
     @ ''T'' @ pad2 (HourFromTime t) @ '':'' @ pad2 (MinFromTime t) @ '':'' @ pad2 (SecFromTime t)
     @ ''.'' @ pad3 (msFromTime t) @ ''Z''"

datatype error =
    RangeError
  | InvalidLogFormat
  | InvalidTimestampFormat
  | InvalidFilenameFormat string
  | UploadError
  | ENOENT

text \<open>\<open>date.toISOString()\<close> throws a RangeError on an invalid date.\<close>

definition toISOString :: "int option \<Rightarrow> error + string" where
  "toISOString date = (case date of None \<Rightarrow> Inl RangeError | Some t \<Rightarrow> Inr (isoOfTime t))"

text \<open>
  \<open>new Date(s)\<close> for a string in the full ECMAScript date-time format with the \<open>Z\<close> suffix,
  the only form this program ever parses (each parsed string was produced by \<open>toISOString\<close>).
  Month, day and time fields outside their calendar range give the invalid date. Any other
  string is left to the implementation by ECMAScript and is mapped to the invalid date here.
\<close>

definition isoFieldsTime :: "int \<Rightarrow> nat \<Rightarrow> nat \<Rightarrow> nat \<Rightarrow> nat \<Rightarrow> nat \<Rightarrow> nat \<Rightarrow> int option" where
  "isoFieldsTime y mo d h mi s ms =
     (let l = (if DaysInYear y = 366 then 1 else 0) in
      if 1 \<le> mo \<and> mo \<le> 12 \<and> 1 \<le> d
         \<and> int d \<le> monthStart (int mo) l - monthStart (int mo - 1) l
         \<and> h \<le> 23 \<and> mi \<le> 59 \<and> s \<le> 59
      then TimeClip (MakeDate (MakeDay y (int mo - 1) (int d))
                       (MakeTime (int h) (int mi) (int s) (int ms)))
      else None)"

definition parseIsoFields :: "int \<Rightarrow> string \<Rightarrow> int option" where
  "parseIsoFields y r =
     (if length r = 20 \<and> r ! 0 = CHR ''-'' \<and> r ! 3 = CHR ''-'' \<and> r ! 6 = CHR ''T''
         \<and> r ! 9 = CHR '':'' \<and> r ! 12 = CHR '':'' \<and> r ! 15 = CHR ''.'' \<and> r ! 19 = CHR ''Z''
      then
        Option.bind (parseDigits (take 2 (drop 1 r))) (\<lambda>mo.
        Option.bind (parseDigits (take 2 (drop 4 r))) (\<lambda>d.
        Option.bind (parseDigits (take 2 (drop 7 r))) (\<lambda>h.
        Option.bind (parseDigits (take 2 (drop 10 r))) (\<lambda>mi.
        Option.bind (parseDigits (take 2 (drop 13 r))) (\<lambda>s.
        Option.bind (parseDigits (take 3 (drop 16 r))) (\<lambda>ms.
          isoFieldsTime y mo d h mi s ms))))))
      else None)"

definition Date_parse :: "string \<Rightarrow> int option" where
  "Date_parse s =
     (case s of
        [] \<Rightarrow> None
      | c # r \<Rightarrow>
          if c = CHR ''+'' \<or> c = CHR ''-'' then
            (case parseDigits (take 6 r) of
               None \<Rightarrow> None
             | Some y \<Rightarrow>
                 if c = CHR ''-'' \<and> y = 0 then None
                 else parseIsoFields (if c = CHR ''-'' then - int y else int y) (drop 6 r))
          else
            (case parseDigits (take 4 s) of
               None \<Rightarrow> None
             | Some y \<Rightarrow> parseIsoFields (int y) (drop 4 s)))"

section \<open>The environment and the state\<close>

text \<open>
  What the program reads from outside is a parameter of the model: the system clock, the
  offset of the process's local time zone, V8's parser for date strings outside the ISO
  format, the object store's answer to each upload and \<open>Math.random\<close>. Every read of the
  clock takes the next reading, so two reads in one function may differ.
\<close>

record env =
  clock :: "nat \<Rightarrow> int"
  localTZA :: "int \<Rightarrow> int"
  legacyParse :: "string \<Rightarrow> int option"
  s3_accepts :: "nat \<Rightarrow> bool"
  randomSuffix :: "nat \<Rightarrow> string"

record LogEntry =
  device_id :: string
  log_timestamp :: string
  message :: string

text \<open>A JSON value: a string, an integer, or the number
  \<open>parseFloat((ms / 1000).toFixed(1))\<close> kept by its argument \<open>ms\<close>.\<close>

datatype jval = JString string | JNumber int | JSecondsFixed1 int

text \<open>
  The content of a file is a sequence of chunks: a bucket file holds one serialised LogEntry
  per line, a status file or a sidecar holds one JSON object, a compressed file holds the
  gzip of another content. Serialisation to bytes is not modelled.
\<close>

datatype chunk =
    EntryLine LogEntry
  | JsonDoc "(string \<times> jval) list"
  | GzipOf "chunk list"

type_synonym fcontent = "chunk list"

datatype area = Incoming | Processing | Failed | Status

type_synonym path = "area \<times> string"

record state =
  ticks :: nat
  files :: "(path \<times> fcontent) list"
  timestampCounters :: "(string \<times> nat) list"
  recentRequests :: "int list"
  isProcessing :: bool
  s3_sends :: nat
  s3_objects :: "(string \<times> fcontent) list"
  random_calls :: nat
  sleeps :: "nat list"

text \<open>\<open>Date.now()\<close> and \<open>new Date()\<close>: the next reading of the clock.\<close>

definition Date_now :: "env \<Rightarrow> state \<Rightarrow> int \<times> state" where
  "Date_now e s = (clock e (ticks s), s\<lparr>ticks := Suc (ticks s)\<rparr>)"

definition new_Date :: "env \<Rightarrow> state \<Rightarrow> int option \<times> state" where
  "new_Date e s = (Some (clock e (ticks s)), s\<lparr>ticks := Suc (ticks s)\<rparr>)"

definition LocalTime :: "env \<Rightarrow> int \<Rightarrow> int" where
  "LocalTime e t = t + localTZA e t"

text \<open>The local-time getters give NaN on an invalid date; \<open>None\<close> stands for NaN.\<close>

definition getFullYear :: "env \<Rightarrow> int option \<Rightarrow> int option" where
  "getFullYear e date = (case date of None \<Rightarrow> None | Some t \<Rightarrow> Some (YearFromTime (LocalTime e t)))"

definition getMonth :: "env \<Rightarrow> int option \<Rightarrow> int option" where
  "getMonth e date = (case date of None \<Rightarrow> None | Some t \<Rightarrow> Some (MonthFromTime (LocalTime e t)))"

definition getDate :: "env \<Rightarrow> int option \<Rightarrow> int option" where
  "getDate e date = (case date of None \<Rightarrow> None | Some t \<Rightarrow> Some (DateFromTime (LocalTime e t)))"

definition getHours :: "env \<Rightarrow> int option \<Rightarrow> int option" where
  "getHours e date = (case date of None \<Rightarrow> None | Some t \<Rightarrow> Some (HourFromTime (LocalTime e t)))"

text \<open>\<open>x + 1\<close> and \<open>String(x)\<close> for a number that may be NaN.\<close>

definition plusOne :: "int option \<Rightarrow> int option" where
  "plusOne x = (case x of None \<Rightarrow> None | Some i \<Rightarrow> Some (i + 1))"

definition String_num :: "int option \<Rightarrow> string" where
  "String_num x = (case x of None \<Rightarrow> ''NaN'' | Some i \<Rightarrow> String_int i)"

definition startsWith :: "string \<Rightarrow> string \<Rightarrow> bool" where
  "startsWith s p = (take (length p) s = p)"

definition endsWith :: "string \<Rightarrow> string \<Rightarrow> bool" where
  "endsWith s p = (length p \<le> length s \<and> drop (length s - length p) s = p)"

text \<open>\<open>a < b\<close> on strings: lexicographic on code units, a proper prefix being smaller.\<close>

fun strLess :: "string \<Rightarrow> string \<Rightarrow> bool" where
  "strLess [] [] = False"
| "strLess [] (y # ys) = True"
| "strLess (x # xs) [] = False"
| "strLess (x # xs) (y # ys) =
     ((of_char x :: nat) < of_char y \<or> (x = y \<and> strLess xs ys))"

text \<open>\<open>s.split("\n")\<close>.\<close>

fun splitLines :: "string \<Rightarrow> string list" where
  "splitLines [] = [[]]"
| "splitLines (c # cs) =
     (if c = CHR 0x0A then [] # splitLines cs
      else (case splitLines cs of l # ls \<Rightarrow> (c # l) # ls | [] \<Rightarrow> [[c]]))"

section \<open>utils/logProcessor.js\<close>

subsection \<open>The timestamp prefix\<close>

definition isAlpha :: "char \<Rightarrow> bool" where
  "isAlpha c = (let n = (of_char c :: nat) in (65 \<le> n \<and> n \<le> 90) \<or> (97 \<le> n \<and> n \<le> 122))"

text \<open>The class \<open>\w\<close>: letters, digits and the underscore.\<close>

definition isWord :: "char \<Rightarrow> bool" where
  "isWord c = (isAlpha c \<or> isDigit c \<or> c = CHR ''_'')"

text \<open>The class \<open>\s\<close> on code units below 256: tab, line feed, vertical tab, form feed,
  carriage return, space and the no-break space.\<close>

definition isSpace :: "char \<Rightarrow> bool" where
  "isSpace c = (let n = (of_char c :: nat) in (9 \<le> n \<and> n \<le> 13) \<or> n = 32 \<or> n = 160)"

text \<open>\<open>\d{2}:\d{2}:\d{2}\<close> as a whole string.\<close>

definition isTime :: "string \<Rightarrow> bool" where
  "isTime t =
     (length t = 8 \<and> isDigit (t ! 0) \<and> isDigit (t ! 1) \<and> t ! 2 = CHR '':''
      \<and> isDigit (t ! 3) \<and> isDigit (t ! 4) \<and> t ! 5 = CHR '':''
      \<and> isDigit (t ! 6) \<and> isDigit (t ! 7))"

text \<open>
  A match of \<open>^(C{3})\s+(\d{1,2})\s+(\d{2}:\d{2}:\d{2})\<close> at the start of a string, for a
  character class \<open>C\<close>: the three characters, the first white space, the day digits, the
  second white space and the time. Both quantified white-space runs and the day are greedy,
  and giving back a character never helps: after a shorter run the next character is again
  white space (or a digit), which the following item cannot take. So the longest runs decide.
\<close>

definition matchStamp ::
    "(char \<Rightarrow> bool) \<Rightarrow> string \<Rightarrow> (string \<times> string \<times> string \<times> string \<times> string) option" where
  "matchStamp cls s =
     (let mon = take 3 s;
          r1 = drop 3 s;
          ws1 = takeWhile isSpace r1;
          r2 = dropWhile isSpace r1;
          day = take 2 (takeWhile isDigit r2);
          r3 = drop (length day) r2;
          ws2 = takeWhile isSpace r3;
          r4 = dropWhile isSpace r3;
          tm = take 8 r4
      in if length mon = 3 \<and> list_all cls mon \<and> ws1 \<noteq> [] \<and> day \<noteq> [] \<and> ws2 \<noteq> []
            \<and> isTime tm
         then Some (mon, ws1, day, ws2, tm) else None)"

definition months :: "string \<Rightarrow> int option" where
  "months = map_of
     [(''Jan'', 0), (''Feb'', 1), (''Mar'', 2), (''Apr'', 3), (''May'', 4), (''Jun'', 5),
      (''Jul'', 6), (''Aug'', 7), (''Sep'', 8), (''Oct'', 9), (''Nov'', 10), (''Dec'', 11)]"

subsection \<open>getTimestampFromLog\<close>

text \<open>
  The result is \<open>Inr None\<close> for \<open>null\<close>, \<open>Inr (Some iso)\<close> for a string and \<open>Inl RangeError\<close>
  when \<open>toISOString\<close> throws. The clock is read once, for the year, and only after both
  checks have passed.
\<close>

definition getTimestampFromLog ::
    "env \<Rightarrow> string \<Rightarrow> nat \<Rightarrow> state \<Rightarrow> (error + string option) \<times> state" where
  "getTimestampFromLog e logLine secondIndex s =
     (case matchStamp isAlpha logLine of
        None \<Rightarrow> (Inr None, s)
      | Some (monthStr, ws1, dayStr, ws2, timeStr) \<Rightarrow>
          (let hours = int (digitsVal (take 2 timeStr));
               minutes = int (digitsVal (take 2 (drop 3 timeStr)));
               seconds = int (digitsVal (take 2 (drop 6 timeStr)));
               day = int (digitsVal dayStr)
           in case months monthStr of
                None \<Rightarrow> (Inr None, s)
              | Some monthIndex \<Rightarrow>
                  (let (now, s1) = new_Date e s;
                       year = the (getFullYear e now);
                       date = Date_UTC year monthIndex day hours minutes seconds;
                       date = addUTCHours (- 7) date;
                       date = setUTCMilliseconds (int secondIndex) date
                   in (map_sum id Some (toISOString date), s1))))"

subsection \<open>The legacy single-line path\<close>

definition formatTimestampKey :: "int \<Rightarrow> string" where
  "formatTimestampKey t = take 19 (isoOfTime t)"

definition getHourKey :: "env \<Rightarrow> int option \<Rightarrow> string" where
  "getHourKey e timestamp =
     (let year = getFullYear e timestamp;
          month = padStart 2 CHR ''0'' (String_num (plusOne (getMonth e timestamp)));
          day = padStart 2 CHR ''0'' (String_num (getDate e timestamp));
          hour = padStart 2 CHR ''0'' (String_num (getHours e timestamp))
      in String_num year @ ''-'' @ month @ ''-'' @ day @ ''-'' @ hour)"

definition counterGet :: "(string \<times> nat) list \<Rightarrow> string \<Rightarrow> nat" where
  "counterGet m k = (case map_of m k of None \<Rightarrow> 0 | Some c \<Rightarrow> c)"

definition cleanOldCounters :: "env \<Rightarrow> state \<Rightarrow> state" where
  "cleanOldCounters e s =
     (let (now, s1) = Date_now e s;
          cutoffKey = formatTimestampKey (now - 60 * 60 * 1000)
      in s1\<lparr>timestampCounters :=
              filter (\<lambda>(key, c). \<not> strLess key cutoffKey) (timestampCounters s1)\<rparr>)"

record enhanced =
  baseTimestamp :: int
  enhancedTimestamp :: string
  hourKey :: string

definition parseAndEnhanceTimestamp ::
    "env \<Rightarrow> string \<Rightarrow> state \<Rightarrow> (error + enhanced) \<times> state" where
  "parseAndEnhanceTimestamp e logMessage s =
     (case matchStamp isWord logMessage of
        None \<Rightarrow> (Inl InvalidLogFormat, s)
      | Some (mon, ws1, day, ws2, tm) \<Rightarrow>
          (let timestampStr = mon @ ws1 @ day @ ws2 @ tm;
               (now, s1) = new_Date e s;
               currentYear = getFullYear e now
           in case Option.bind (legacyParse e (timestampStr @ '' '' @ String_num currentYear))
                     TimeClip of
                None \<Rightarrow> (Inl InvalidTimestampFormat, s1)
              | Some base \<Rightarrow>
                  (let secondKey = formatTimestampKey base;
                       counter = counterGet (timestampCounters s1) secondKey + 1;
                       s2 = s1\<lparr>timestampCounters :=
                                 AList.update secondKey counter (timestampCounters s1)\<rparr>;
                       s3 = cleanOldCounters e s2
                   in case toISOString (TimeClip (base + int counter)) of
                        Inl err \<Rightarrow> (Inl err, s3)
                      | Inr enh \<Rightarrow>
                          (Inr \<lparr>baseTimestamp = base, enhancedTimestamp = enh,
                                 hourKey = getHourKey e (Some base)\<rparr>, s3))))"

subsection \<open>The ingestion rate\<close>

definition trackRequest :: "env \<Rightarrow> state \<Rightarrow> state" where
  "trackRequest e s =
     (let (now, s1) = Date_now e s;
          fiveMinutesAgo = now - 5 * 60 * 1000
      in s1\<lparr>recentRequests :=
              filter (\<lambda>timestamp. timestamp > fiveMinutesAgo) (recentRequests s1 @ [now])\<rparr>)"

text \<open>\<open>x.toFixed(1)\<close> read back by \<open>parseFloat\<close>: the nearest multiple of one tenth, the
  larger one on a tie. The quotient is an exact fraction here, not a double.\<close>

definition toFixed1 :: "rat \<Rightarrow> rat" where
  "toFixed1 x = of_int \<lfloor>x * 10 + 1 / 2\<rfloor> / 10"

definition getIngestionRate :: "state \<Rightarrow> rat" where
  "getIngestionRate s = toFixed1 (of_nat (length (recentRequests s)) / 5)"

subsection \<open>processLogContentLineByLine\<close>

text \<open>\<open>new Date().toISOString()\<close>; the current time is a valid date, so nothing is thrown.\<close>

definition nowISOString :: "env \<Rightarrow> state \<Rightarrow> string \<times> state" where
  "nowISOString e s = (let (d, s1) = new_Date e s in (isoOfTime (the d), s1))"

text \<open>
  Lines 441 to 459 of the loop body: the base timestamp, the per-second counter and the final
  timestamp of one line. The result is the timestamp and the updated counters.
\<close>

definition resolveTimestamp ::
    "env \<Rightarrow> string \<Rightarrow> (string \<times> nat) list \<Rightarrow> state
      \<Rightarrow> (error + string \<times> (string \<times> nat) list) \<times> state" where
  "resolveTimestamp e line secondCounters s =
     (case getTimestampFromLog e line 0 s of
        (Inl err, s1) \<Rightarrow> (Inl err, s1)
      | (Inr None, s1) \<Rightarrow>
          (let (logTimestamp, s2) = nowISOString e s1 in (Inr (logTimestamp, secondCounters), s2))
      | (Inr (Some base), s1) \<Rightarrow>
          (let secondKey = take 19 base @ ''Z'';
               currentCount = counterGet secondCounters secondKey;
               secondCounters' = AList.update secondKey (currentCount + 1) secondCounters
           in case getTimestampFromLog e line currentCount s1 of
                (Inl err, s2) \<Rightarrow> (Inl err, s2)
              | (Inr (Some logTimestamp), s2) \<Rightarrow> (Inr (logTimestamp, secondCounters'), s2)
              | (Inr None, s2) \<Rightarrow>
                  (let (logTimestamp, s3) = nowISOString e s2
                   in (Inr (logTimestamp, secondCounters'), s3))))"

type_synonym fileEntries = "(string \<times> LogEntry list) list"

text \<open>\<open>if (!fileEntries.has(f)) fileEntries.set(f, []); fileEntries.get(f).push(entry)\<close>.\<close>

definition addEntry :: "string \<Rightarrow> LogEntry \<Rightarrow> fileEntries \<Rightarrow> fileEntries" where
  "addEntry filename entry fe =
     AList.update filename
       ((case map_of fe filename of None \<Rightarrow> [] | Some es \<Rightarrow> es) @ [entry]) fe"

definition lineStep ::
    "env \<Rightarrow> string \<Rightarrow> string \<Rightarrow> (string \<times> nat) list \<times> fileEntries \<Rightarrow> state
      \<Rightarrow> (error + (string \<times> nat) list \<times> fileEntries) \<times> state" where
  "lineStep e deviceId line acc s =
     (case acc of (secondCounters, fileEntries) \<Rightarrow>
        (case resolveTimestamp e line secondCounters s of
           (Inl err, s1) \<Rightarrow> (Inl err, s1)
         | (Inr (logTimestamp, secondCounters'), s1) \<Rightarrow>
             (let logEntry = \<lparr>device_id = deviceId, log_timestamp = logTimestamp, message = line\<rparr>;
                  timestamp = Date_parse logTimestamp;
                  filename = getHourKey e timestamp @ ''.log''
              in (Inr (secondCounters', addEntry filename logEntry fileEntries), s1))))"

fun processLines ::
    "env \<Rightarrow> string \<Rightarrow> string list \<Rightarrow> (string \<times> nat) list \<times> fileEntries \<Rightarrow> state
      \<Rightarrow> (error + (string \<times> nat) list \<times> fileEntries) \<times> state" where
  "processLines e deviceId [] acc s = (Inr acc, s)"
| "processLines e deviceId (line # rest) acc s =
     (case lineStep e deviceId line acc s of
        (Inl err, s1) \<Rightarrow> (Inl err, s1)
      | (Inr acc', s1) \<Rightarrow> processLines e deviceId rest acc' s1)"

text \<open>\<open>fs.appendFile\<close> creates the file when it is absent. Failures of the disk are not
  modelled: an append always succeeds.\<close>

definition fs_appendFile :: "path \<Rightarrow> fcontent \<Rightarrow> state \<Rightarrow> state" where
  "fs_appendFile p c s =
     s\<lparr>files := AList.update p ((case map_of (files s) p of None \<Rightarrow> [] | Some old \<Rightarrow> old) @ c)
                   (files s)\<rparr>"

fun writeEntries :: "fileEntries \<Rightarrow> state \<Rightarrow> state" where
  "writeEntries [] s = s"
| "writeEntries ((filename, entries) # rest) s =
     writeEntries rest (fs_appendFile (Incoming, filename) (map EntryLine entries) s)"

record ingestResult =
  success :: bool
  linesProcessed :: nat
  filesWritten :: nat

definition processLogContentLineByLine ::
    "env \<Rightarrow> string \<Rightarrow> string \<Rightarrow> state \<Rightarrow> (error + ingestResult) \<times> state" where
  "processLogContentLineByLine e deviceId logContent s =
     (let s1 = trackRequest e s;
          logLines = filter (\<lambda>line. length line > 0) (splitLines logContent)
      in if length logLines = 0
         then (Inr \<lparr>success = False, linesProcessed = 0, filesWritten = 0\<rparr>, s1)
         else
           (case processLines e deviceId logLines ([], []) s1 of
              (Inl err, s2) \<Rightarrow> (Inl err, s2)
            | (Inr (secondCounters, fileEntries), s2) \<Rightarrow>
                (Inr \<lparr>success = True, linesProcessed = length logLines,
                       filesWritten = length fileEntries\<rparr>,
                 writeEntries fileEntries s2)))"

section \<open>utils/filesystem.js\<close>

text \<open>
  The file system is the association list \<open>files\<close>. An operation fails only when the file
  it reads does not exist; other failures of the disk are not modelled.
\<close>

definition fs_rename :: "path \<Rightarrow> path \<Rightarrow> state \<Rightarrow> (error + unit) \<times> state" where
  "fs_rename src dst s =
     (case map_of (files s) src of
        None \<Rightarrow> (Inl ENOENT, s)
      | Some c \<Rightarrow> (Inr (), s\<lparr>files := AList.update dst c (AList.delete src (files s))\<rparr>))"

definition fs_copyFile :: "path \<Rightarrow> path \<Rightarrow> state \<Rightarrow> (error + unit) \<times> state" where
  "fs_copyFile src dst s =
     (case map_of (files s) src of
        None \<Rightarrow> (Inl ENOENT, s)
      | Some c \<Rightarrow> (Inr (), s\<lparr>files := AList.update dst c (files s)\<rparr>))"

definition fs_unlink :: "path \<Rightarrow> state \<Rightarrow> (error + unit) \<times> state" where
  "fs_unlink p s =
     (case map_of (files s) p of
        None \<Rightarrow> (Inl ENOENT, s)
      | Some c \<Rightarrow> (Inr (), s\<lparr>files := AList.delete p (files s)\<rparr>))"

definition fs_writeFile :: "path \<Rightarrow> fcontent \<Rightarrow> state \<Rightarrow> (error + unit) \<times> state" where
  "fs_writeFile p c s = (Inr (), s\<lparr>files := AList.update p c (files s)\<rparr>)"

definition listFiles :: "area \<Rightarrow> (string \<Rightarrow> bool) \<Rightarrow> state \<Rightarrow> string list" where
  "listFiles dirPath flt s =
     filter flt (map (\<lambda>(p, c). snd p) (filter (\<lambda>(p, c). fst p = dirPath) (files s)))"

definition moveFile :: "path \<Rightarrow> path \<Rightarrow> state \<Rightarrow> (error + unit) \<times> state" where
  "moveFile source destination s =
     (case fs_rename source destination s of
        (Inr u, s1) \<Rightarrow> (Inr u, s1)
      | (Inl err, s1) \<Rightarrow>
          (case fs_copyFile source destination s1 of
             (Inl err', s2) \<Rightarrow> (Inl err', s2)
           | (Inr u, s2) \<Rightarrow> fs_unlink source s2))"

definition writeJsonFile :: "path \<Rightarrow> (string \<times> jval) list \<Rightarrow> state \<Rightarrow> (error + unit) \<times> state" where
  "writeJsonFile filePath data s =
     (let tempPath = (fst filePath, snd filePath @ ''.tmp'') in
      case fs_writeFile tempPath [JsonDoc data] s of
        (Inl err, s1) \<Rightarrow> (Inl err, snd (fs_unlink tempPath s1))
      | (Inr u, s1) \<Rightarrow>
          (case fs_rename tempPath filePath s1 of
             (Inl err, s2) \<Rightarrow> (Inl err, snd (fs_unlink tempPath s2))
           | (Inr u', s2) \<Rightarrow> (Inr u', s2)))"

section \<open>services/batchProcessor.js\<close>

definition maxRetries :: nat where
  "maxRetries = 3"

definition s3KeyPrefix :: string where
  "s3KeyPrefix = ''logs''"

definition errorMessage :: "error \<Rightarrow> string" where
  "errorMessage err =
     (case err of
        RangeError \<Rightarrow> ''Invalid time value''
      | InvalidLogFormat \<Rightarrow> ''Invalid log format: timestamp not found''
      | InvalidTimestampFormat \<Rightarrow> ''Invalid timestamp format''
      | InvalidFilenameFormat f \<Rightarrow> ''Invalid filename format: '' @ f
      | UploadError \<Rightarrow> ''upload failed''
      | ENOENT \<Rightarrow> ''ENOENT: no such file or directory'')"

definition updateStatus :: "string \<Rightarrow> (string \<times> jval) list \<Rightarrow> state \<Rightarrow> (error + unit) \<times> state" where
  "updateStatus status additionalData s =
     writeJsonFile (Status, ''last_run.json'') ((''status'', JString status) # additionalData) s"

fun sweepLoop :: "string list \<Rightarrow> string list \<Rightarrow> state \<Rightarrow> string list \<times> state" where
  "sweepLoop [] sweptFiles s = (sweptFiles, s)"
| "sweepLoop (filename # rest) sweptFiles s =
     (case moveFile (Incoming, filename) (Processing, filename) s of
        (Inr u, s1) \<Rightarrow> sweepLoop rest (sweptFiles @ [filename]) s1
      | (Inl err, s1) \<Rightarrow> sweepLoop rest sweptFiles s1)"

text \<open>The hour key of the sweep: the hour comes from one reading of the clock, the year, month
  and day from the next one.\<close>

definition currentHourKey :: "env \<Rightarrow> state \<Rightarrow> string \<times> state" where
  "currentHourKey e s =
     (let (d, s1) = new_Date e s;
          currentHour = getHours e d;
          (currentDate, s2) = new_Date e s1
      in (String_num (getFullYear e currentDate) @ ''-''
          @ padStart 2 CHR ''0'' (String_num (plusOne (getMonth e currentDate)))
          @ ''-'' @ padStart 2 CHR ''0'' (String_num (getDate e currentDate))
          @ ''-'' @ padStart 2 CHR ''0'' (String_num currentHour), s2))"

definition sweepCompletedFiles :: "env \<Rightarrow> state \<Rightarrow> string list \<times> state" where
  "sweepCompletedFiles e s =
     (let (key, s2) = currentHourKey e s;
          incomingFiles =
            listFiles Incoming
              (\<lambda>filename. endsWith filename ''.log'' \<and> \<not> startsWith filename key) s2
      in sweepLoop incomingFiles [] s2)"

definition compressFile :: "path \<Rightarrow> path \<Rightarrow> state \<Rightarrow> (error + unit) \<times> state" where
  "compressFile inputPath outputPath s =
     (case map_of (files s) inputPath of
        None \<Rightarrow> (Inl ENOENT, s)
      | Some c \<Rightarrow> (Inr (), s\<lparr>files := AList.update outputPath [GzipOf c] (files s)\<rparr>))"

text \<open>\<open>s.replace(pat, rep)\<close> for a string pattern: the first occurrence only.\<close>

fun replaceFirst :: "string \<Rightarrow> string \<Rightarrow> string \<Rightarrow> string" where
  "replaceFirst pat rep [] = (if pat = [] then rep else [])"
| "replaceFirst pat rep (c # cs) =
     (if startsWith (c # cs) pat then rep @ drop (length pat) (c # cs)
      else c # replaceFirst pat rep cs)"

text \<open>\<open>^(\d{4})-(\d{2})-(\d{2})-(\d{2})\.log$\<close>.\<close>

definition isBucketName :: "string \<Rightarrow> bool" where
  "isBucketName f =
     (length f = 17 \<and> list_all isDigit (take 4 f) \<and> f ! 4 = CHR ''-''
      \<and> list_all isDigit (take 2 (drop 5 f)) \<and> f ! 7 = CHR ''-''
      \<and> list_all isDigit (take 2 (drop 8 f)) \<and> f ! 10 = CHR ''-''
      \<and> list_all isDigit (take 2 (drop 11 f)) \<and> drop 13 f = ''.log'')"

definition generateS3Key :: "env \<Rightarrow> string \<Rightarrow> state \<Rightarrow> (error + string) \<times> state" where
  "generateS3Key e filename s =
     (if \<not> isBucketName filename then (Inl (InvalidFilenameFormat filename), s)
      else
        (let year = take 4 filename; month = take 2 (drop 5 filename);
             day = take 2 (drop 8 filename); hour = take 2 (drop 11 filename);
             randomStr = randomSuffix e (random_calls s);
             uniqueFilename = replaceFirst ''.log'' [] filename @ ''_'' @ randomStr @ ''.log''
         in (Inr (s3KeyPrefix @ ''/year='' @ year @ ''/month='' @ month @ ''/day='' @ day
                  @ ''/hour='' @ hour @ ''/'' @ uniqueFilename @ ''.gz''),
             s\<lparr>random_calls := Suc (random_calls s)\<rparr>)))"

text \<open>The body of the \<open>try\<close> in \<open>uploadToS3\<close>: one attempt. The store's answer to the
  \<open>n\<close>-th request is \<open>s3_accepts e n\<close>.\<close>

definition uploadAttempt :: "env \<Rightarrow> path \<Rightarrow> string \<Rightarrow> state \<Rightarrow> (error + unit) \<times> state" where
  "uploadAttempt e filePath originalFilename s =
     (case generateS3Key e originalFilename s of
        (Inl err, s1) \<Rightarrow> (Inl err, s1)
      | (Inr s3Key, s1) \<Rightarrow>
          (let s2 = s1\<lparr>s3_sends := Suc (s3_sends s1)\<rparr> in
           case map_of (files s1) filePath of
             None \<Rightarrow> (Inl ENOENT, s2)
           | Some body \<Rightarrow>
               if s3_accepts e (s3_sends s1)
               then (Inr (), s2\<lparr>s3_objects := s3_objects s2 @ [(s3Key, body)]\<rparr>)
               else (Inl UploadError, s2)))"

function uploadToS3 ::
    "env \<Rightarrow> path \<Rightarrow> string \<Rightarrow> nat \<Rightarrow> state \<Rightarrow> (error + unit) \<times> state" where
  "uploadToS3 e filePath originalFilename retryCount s =
     (case uploadAttempt e filePath originalFilename s of
        (Inr u, s1) \<Rightarrow> (Inr u, s1)
      | (Inl err, s1) \<Rightarrow>
          if retryCount < maxRetries
          then uploadToS3 e filePath originalFilename (retryCount + 1)
                 (s1\<lparr>sleeps := sleeps s1 @ [1000 * (retryCount + 1)]\<rparr>)
          else (Inl err, s1))"
  by pat_completeness auto
termination
  by (relation "measure (\<lambda>(e, filePath, originalFilename, retryCount, s). maxRetries - retryCount)")
     auto

declare uploadToS3.simps [simp del]

definition processFile :: "env \<Rightarrow> string \<Rightarrow> state \<Rightarrow> (error + unit) \<times> state" where
  "processFile e filename s =
     (let sourceFile = (Processing, filename);
          compressedFile = (Processing, filename @ ''.gz'');
          attempt =
            (case compressFile sourceFile compressedFile s of
               (Inl err, s1) \<Rightarrow> (Inl err, s1)
             | (Inr u, s1) \<Rightarrow>
                 (case uploadToS3 e compressedFile filename 0 s1 of
                    (Inl err, s2) \<Rightarrow> (Inl err, s2)
                  | (Inr u', s2) \<Rightarrow>
                      (let (r1, s3) = fs_unlink sourceFile s2;
                           (r2, s4) = fs_unlink compressedFile s3
                       in case r1 of Inl err \<Rightarrow> (Inl err, s4) | Inr u'' \<Rightarrow> (r2, s4))))
      in case attempt of
           (Inr u, s') \<Rightarrow> (Inr u, s')
         | (Inl err, s') \<Rightarrow> (Inl err, snd (fs_unlink compressedFile s')))"

definition handleFailedFile :: "env \<Rightarrow> string \<Rightarrow> error \<Rightarrow> state \<Rightarrow> state" where
  "handleFailedFile e filename err s =
     (case moveFile (Processing, filename) (Failed, filename) s of
        (Inl metaError, s1) \<Rightarrow> s1
      | (Inr u, s1) \<Rightarrow>
          (let (failed_at, s2) = nowISOString e s1;
               metadata = [(''failed_at'', JString failed_at),
                           (''error_message'', JString (errorMessage err)),
                           (''retry_attempts'', JNumber (int maxRetries))]
           in snd (writeJsonFile (Failed, filename @ ''.meta'') metadata s2)))"

text \<open>The loop of \<open>run\<close> over the swept files, with the count of processed files and the status.\<close>

fun processAll :: "env \<Rightarrow> string list \<Rightarrow> nat \<Rightarrow> string \<Rightarrow> state \<Rightarrow> nat \<times> string \<times> state" where
  "processAll e [] filesProcessed status s = (filesProcessed, status, s)"
| "processAll e (filename # rest) filesProcessed status s =
     (case processFile e filename s of
        (Inr u, s1) \<Rightarrow> processAll e rest (filesProcessed + 1) status s1
      | (Inl err, s1) \<Rightarrow>
          processAll e rest filesProcessed ''failed'' (handleFailedFile e filename err s1))"

text \<open>
  \<open>run\<close>. The console output is not modelled. The \<open>catch\<close> around the cycle is reached only
  when a status write fails; its own status write is the last thing the cycle does.
\<close>

definition runCycle :: "env \<Rightarrow> int \<Rightarrow> state \<Rightarrow> (error + unit) \<times> state" where
  "runCycle e startTime s =
     (let (started_at, s1) = nowISOString e s in
      case updateStatus ''running'' [(''started_at'', JString started_at)] s1 of
        (Inl err, s2) \<Rightarrow> (Inl err, s2)
      | (Inr u, s2) \<Rightarrow>
          (let (sweptFiles, s3) = sweepCompletedFiles e s2;
               (filesProcessed, status, s4) = processAll e sweptFiles 0 ''success'' s3;
               (finishTime, s5) = Date_now e s4;
               (finished_at, s6) = nowISOString e s5
           in updateStatus status
                [(''finished_at'', JString finished_at),
                 (''duration_seconds'', JSecondsFixed1 (finishTime - startTime)),
                 (''files_processed'', JNumber (int filesProcessed))] s6))"

definition run :: "env \<Rightarrow> state \<Rightarrow> state" where
  "run e s =
     (if isProcessing s then s
      else
        (let s0 = s\<lparr>isProcessing := True\<rparr>;
             (startTime, s1) = Date_now e s0;
             s' = (case runCycle e startTime s1 of
                     (Inr u, s2) \<Rightarrow> s2
                   | (Inl err, s2) \<Rightarrow>
                       (let (finished_at, s3) = nowISOString e s2
                        in snd (updateStatus ''failed''
                                  [(''finished_at'', JString finished_at),
                                   (''error_message'', JString (errorMessage err))] s3)))
         in s'\<lparr>isProcessing := False\<rparr>))"

section \<open>Notions used to state the properties\<close>

text \<open>
  The language of the timestamp pattern, written as a decomposition of the line: three
  characters of the class, white space, one or two digits, white space, and the time.
\<close>

definition stampPrefix ::
    "(char \<Rightarrow> bool) \<Rightarrow> string \<Rightarrow> string \<Rightarrow> string \<Rightarrow> string \<Rightarrow> string \<Rightarrow> string \<Rightarrow> bool" where
  "stampPrefix cls s mon ws1 day ws2 tm =
     (\<exists>rest. s = mon @ ws1 @ day @ ws2 @ tm @ rest
        \<and> length mon = 3 \<and> list_all cls mon
        \<and> ws1 \<noteq> [] \<and> list_all isSpace ws1
        \<and> (length day = 1 \<or> length day = 2) \<and> list_all isDigit day
        \<and> ws2 \<noteq> [] \<and> list_all isSpace ws2
        \<and> isTime tm)"

text \<open>
  The UTC time value that lines 248 to 279 of \<open>getTimestampFromLog\<close> compute for a line in
  calendar year \<open>year\<close>, before the sequence hint is added; \<open>None\<close> when the line has no
  recognised prefix or month.
\<close>

definition parsedTime :: "int \<Rightarrow> string \<Rightarrow> int option" where
  "parsedTime year line =
     (case matchStamp isAlpha line of
        None \<Rightarrow> None
      | Some (monthStr, ws1, dayStr, ws2, timeStr) \<Rightarrow>
          (case months monthStr of
             None \<Rightarrow> None
           | Some monthIndex \<Rightarrow>
               Some (MakeDate (MakeDay year monthIndex (int (digitsVal dayStr)))
                       (MakeTime (int (digitsVal (take 2 timeStr)))
                          (int (digitsVal (take 2 (drop 3 timeStr))))
                          (int (digitsVal (take 2 (drop 6 timeStr)))) 0)
                     - 7 * msPerHour)))"

text \<open>The key of the per-second counters for a line.\<close>

definition lineKey :: "int \<Rightarrow> string \<Rightarrow> string option" where
  "lineKey year line =
     (case parsedTime year line of None \<Rightarrow> None | Some b \<Rightarrow> Some (take 19 (isoOfTime b) @ ''Z''))"

text \<open>The clock gives valid time values, all of them in local calendar year \<open>year\<close>.\<close>

definition clockInYear :: "env \<Rightarrow> int \<Rightarrow> bool" where
  "clockInYear e year =
     (\<forall>n. \<bar>clock e n\<bar> \<le> 8640000000000000 \<and> YearFromTime (LocalTime e (clock e n)) = year)"

text \<open>The file entries that result from adding a sequence of entries in order.\<close>

definition groupEntries :: "(string \<times> LogEntry) list \<Rightarrow> fileEntries \<Rightarrow> fileEntries" where
  "groupEntries xs fe = foldl (\<lambda>acc (filename, entry). addEntry filename entry acc) fe xs"

text \<open>The file name and the entry of the line \<open>snd x\<close> when its base second is \<open>b\<close> and its
  sequence hint is \<open>fst x\<close>.\<close>

definition stampedEntry :: "env \<Rightarrow> string \<Rightarrow> int \<Rightarrow> nat \<times> string \<Rightarrow> string \<times> LogEntry" where
  "stampedEntry e deviceId b x =
     (getHourKey e (Some (b + int (fst x))) @ ''.log'',
      \<lparr>device_id = deviceId, log_timestamp = isoOfTime (b + int (fst x)), message = snd x\<rparr>)"

text \<open>All entries of the file map, file by file.\<close>

definition storedEntries :: "fileEntries \<Rightarrow> LogEntry list" where
  "storedEntries fe = concat (map snd fe)"

text \<open>The \<open>n\<close>-th entry of a bucket file.\<close>

definition entryAt :: "state \<Rightarrow> path \<Rightarrow> nat \<Rightarrow> LogEntry option" where
  "entryAt s p n =
     (case map_of (files s) p of
        None \<Rightarrow> None
      | Some c \<Rightarrow>
          if n < length c then (case c ! n of EntryLine en \<Rightarrow> Some en | _ \<Rightarrow> None) else None)"

text \<open>The rate the interface describes: the calls of the last five minutes before \<open>now\<close>,
  divided by five, to one decimal.\<close>

definition rateAt :: "int list \<Rightarrow> int \<Rightarrow> rat" where
  "rateAt calls now =
     toFixed1 (of_nat (length (filter (\<lambda>t. now - 5 * 60 * 1000 < t \<and> t \<le> now) calls)) / 5)"

text \<open>An environment and states for examples: the clock stands at 2025-09-04T12:46:40Z, local
  time is UTC, every upload is refused.\<close>

definition exampleEnv :: env where
  "exampleEnv =
     \<lparr>clock = (\<lambda>n. 1756990000000), localTZA = (\<lambda>t. 0), legacyParse = (\<lambda>s. None),
      s3_accepts = (\<lambda>n. False), randomSuffix = (\<lambda>n. ''abc123'')\<rparr>"

definition emptyState :: state where
  "emptyState =
     \<lparr>ticks = 0, files = [], timestampCounters = [], recentRequests = [],
      isProcessing = False, s3_sends = 0, s3_objects = [], random_calls = 0, sleeps = []\<rparr>"

text \<open>The same environment one hour later; one whose date parser reads the legacy stamp of
  the example line (as local time, which is UTC here), with the clock one second after the
  stamp; and that one again with the clock two hours after the stamp.\<close>

definition laterEnv :: env where
  "laterEnv = exampleEnv\<lparr>clock := (\<lambda>n. 1756993600000)\<rparr>"

definition legacyEnv :: env where
  "legacyEnv =
     exampleEnv\<lparr>clock := (\<lambda>n. 1756990382000),
                 legacyParse := (\<lambda>s. if s = ''Sep 04 12:53:01 2025'' then Some 1756990381000
                                      else None)\<rparr>"

definition staleLegacyEnv :: env where
  "staleLegacyEnv = legacyEnv\<lparr>clock := (\<lambda>n. 1756997581000)\<rparr>"

text \<open>A state with one bucket file waiting in the processing area.\<close>

definition processingState :: state where
  "processingState =
     emptyState\<lparr>files :=
       [((Processing, ''2025-09-04-05.log''),
         [EntryLine \<lparr>device_id = ''dev'', log_timestamp = ''2025-09-04T05:53:01.000Z'',
                     message = ''Sep 04 12:53:01 unit-a boot''\<rparr>])]\<rparr>"

text \<open>A clock that passes midnight between its first and its second reading
  (2025-09-04T23:59:59.999Z, then 2025-09-05T00:00:00.000Z), and a state whose incoming area
  holds the bucket files of the two hours.\<close>

definition midnightEnv :: env where
  "midnightEnv =
     exampleEnv\<lparr>clock := (\<lambda>n. if n = 0 then 1757030399999 else 1757030400000)\<rparr>"

definition midnightState :: state where
  "midnightState =
     emptyState\<lparr>files :=
       [((Incoming, ''2025-09-04-23.log''),
         [EntryLine \<lparr>device_id = ''dev'', log_timestamp = ''2025-09-04T23:59:59.000Z'',
                     message = ''Sep 05 06:59:59 unit-a tick''\<rparr>]),
        ((Incoming, ''2025-09-05-00.log''),
         [EntryLine \<lparr>device_id = ''dev'', log_timestamp = ''2025-09-05T00:00:00.000Z'',
                     message = ''Sep 05 07:00:00 unit-a tick''\<rparr>])]\<rparr>"

text \<open>Everything stored in the files of the incoming area, file by file.\<close>

definition incomingChunks :: "state \<Rightarrow> chunk list" where
  "incomingChunks s = concat (map snd (filter (\<lambda>x. fst (fst x) = Incoming) (files s)))"

section \<open>Facts about the built-ins\<close>

subsection \<open>Decimal digits\<close>

lemma of_char_digitChar: "d < 10 \<Longrightarrow> (of_char (digitChar d) :: nat) = 48 + d"
  by (simp add: digitChar_def)

lemma isDigit_digitChar: "d < 10 \<Longrightarrow> isDigit (digitChar d)"
  by (simp add: isDigit_def of_char_digitChar)

lemma digitVal_digitChar: "d < 10 \<Longrightarrow> digitVal (digitChar d) = d"
  by (simp add: digitVal_def of_char_digitChar)

lemma digitsVal_snoc: "digitsVal (s @ [c]) = digitsVal s * 10 + digitVal c"
  by (simp add: digitsVal_def)

lemma decimal_digits: "list_all isDigit (decimal n)"
proof (induction n rule: decimal.induct)
  case (1 n)
  show ?case
  proof (cases "n < 10")
    case True
    then show ?thesis by (simp add: decimal.simps [of n] isDigit_digitChar)
  next
    case False
    with 1 show ?thesis by (simp add: decimal.simps [of n] isDigit_digitChar)
  qed
qed

lemma decimal_val: "digitsVal (decimal n) = n"
proof (induction n rule: decimal.induct)
  case (1 n)
  show ?case
  proof (cases "n < 10")
    case True
    then show ?thesis
      by (simp add: decimal.simps [of n] digitsVal_def digitVal_digitChar)
  next
    case False
    with 1 show ?thesis
      by (simp add: decimal.simps [of n] digitsVal_snoc digitVal_digitChar)
  qed
qed

lemma decimal_nonempty: "decimal n \<noteq> []"
  by (subst decimal.simps) simp

lemma decimal_length: "0 < k \<Longrightarrow> n < 10 ^ k \<Longrightarrow> length (decimal n) \<le> k"
proof (induction k arbitrary: n)
  case 0
  then show ?case by simp
next
  case (Suc k)
  show ?case
  proof (cases "n < 10")
    case True
    then show ?thesis by (simp add: decimal.simps [of n])
  next
    case False
    then have k: "0 < k" using Suc.prems by (cases k) auto
    have "n div 10 < 10 ^ k" using Suc.prems by (simp add: less_mult_imp_div_less)
    from Suc.IH [OF k this] False show ?thesis by (simp add: decimal.simps [of n])
  qed
qed

lemma digitsVal_zeros: "digitsVal (replicate k CHR ''0'' @ s) = digitsVal s"
proof -
  have "foldl (\<lambda>acc c. acc * 10 + digitVal c) 0 (replicate k CHR ''0'') = 0"
    by (induction k) (simp_all add: digitVal_def)
  then show ?thesis by (simp add: digitsVal_def)
qed

lemma isDigit_zero: "isDigit CHR ''0''"
  by (simp add: isDigit_def)

lemma padStart_length: "length (padStart k c s) = max k (length s)"
  by (simp add: padStart_def)

lemma parseDigits_pad: "parseDigits (padStart k CHR ''0'' (decimal n)) = Some n"
proof -
  have "list_all isDigit (padStart k CHR ''0'' (decimal n))"
    using decimal_digits [of n] by (auto simp: padStart_def list_all_iff isDigit_zero)
  moreover have "padStart k CHR ''0'' (decimal n) \<noteq> []"
    by (simp add: padStart_def decimal_nonempty)
  moreover have "digitsVal (padStart k CHR ''0'' (decimal n)) = n"
    by (simp add: padStart_def digitsVal_zeros decimal_val)
  ultimately show ?thesis by (simp add: parseDigits_def)
qed

lemma padStart_exact: "0 < k \<Longrightarrow> n < 10 ^ k \<Longrightarrow> length (padStart k c (decimal n)) = k"
  using decimal_length [of k n] by (simp add: padStart_length)

subsection \<open>Years and the fields of a time value\<close>

lemma time_fields:
  fixes t :: int
  shows "t = Day t * msPerDay + HourFromTime t * msPerHour + MinFromTime t * msPerMinute
            + SecFromTime t * msPerSecond + msFromTime t"
proof -
  define a where "a = t div 1000"
  define b where "b = a div 60"
  define c where "c = b div 60"
  define d where "d = c div 24"
  have b: "t div 60000 = b"
    unfolding b_def a_def using zdiv_zmult2_eq [of 60 t 1000] by simp
  have c: "t div 3600000 = c"
    unfolding c_def using zdiv_zmult2_eq [of 60 "t div 1000" 60] zdiv_zmult2_eq [of 3600 t 1000]
    by (simp add: b_def a_def)
  have d: "t div 86400000 = d"
    unfolding d_def c [symmetric] using zdiv_zmult2_eq [of 24 t 3600000] by simp
  have 1: "t = 1000 * a + t mod 1000" unfolding a_def by simp
  have 2: "a = 60 * b + a mod 60" unfolding b_def by simp
  have 3: "b = 60 * c + b mod 60" unfolding c_def by simp
  have 4: "c = 24 * d + c mod 24" unfolding d_def by simp
  have "t = d * 86400000 + (c mod 24) * 3600000 + (b mod 60) * 60000 + (a mod 60) * 1000
            + t mod 1000"
    using 1 2 3 4 by linarith
  then show ?thesis
    unfolding Day_def HourFromTime_def MinFromTime_def SecFromTime_def msFromTime_def
      b c d a_def [symmetric] .
qed

lemma field_ranges:
  "0 \<le> HourFromTime t" "HourFromTime t < 24" "0 \<le> MinFromTime t" "MinFromTime t < 60"
  "0 \<le> SecFromTime t" "SecFromTime t < 60" "0 \<le> msFromTime t" "msFromTime t < 1000"
  by (simp_all add: HourFromTime_def MinFromTime_def SecFromTime_def msFromTime_def)

lemma DayFromYear_1970: "DayFromYear 1970 = 0"
  by (simp add: DayFromYear_def)

lemma DaysInYear_bounds: "365 \<le> DaysInYear y" "DaysInYear y \<le> 366"
  by (simp_all add: DaysInYear_def)

lemma DayFromYear_upper: "1970 \<le> y \<Longrightarrow> 365 * (y - 1970) \<le> DayFromYear y \<and> DayFromYear y \<le> 366 * (y - 1970)"
proof (induction y rule: int_ge_induct)
  case base
  then show ?case by (simp add: DayFromYear_1970)
next
  case (step i)
  then show ?case using DayFromYear_Suc [of i] DaysInYear_bounds [of i] by simp
qed

lemma DayFromYear_lower: "y \<le> 1970 \<Longrightarrow> 366 * (y - 1970) \<le> DayFromYear y \<and> DayFromYear y \<le> 365 * (y - 1970)"
proof (induction y rule: int_le_induct)
  case base
  then show ?case by (simp add: DayFromYear_1970)
next
  case (step i)
  then show ?case using DayFromYear_Suc [of "i - 1"] DaysInYear_bounds [of "i - 1"] by simp
qed

lemma DayFromYear_mono: "y \<le> y' \<Longrightarrow> DayFromYear y \<le> DayFromYear y'"
proof (induction y' rule: int_ge_induct)
  case base
  then show ?case by simp
next
  case (step i)
  then show ?case using DayFromYear_Suc [of i] DaysInYear_bounds [of i] by simp
qed

lemma yearUp_spec:
  "y \<le> yearUp d y \<and> d < DayFromYear (yearUp d y + 1)
   \<and> (DayFromYear y \<le> d \<longrightarrow> DayFromYear (yearUp d y) \<le> d)"
proof (induction d y rule: yearUp.induct)
  case (1 d y)
  show ?case
  proof (cases "DayFromYear (y + 1) \<le> d")
    case True
    with 1 show ?thesis by (subst (1 2 3) yearUp.simps) auto
  next
    case False
    then show ?thesis by (subst (1 2 3) yearUp.simps) auto
  qed
qed

lemma year_estimate: "DayFromYear (1970 + (if 0 \<le> d then d div 366 else d div 365)) \<le> d"
proof (cases "0 \<le> d")
  case True
  then have "0 \<le> d div 366" by simp
  then have "DayFromYear (1970 + d div 366) \<le> 366 * (d div 366)"
    using DayFromYear_upper [of "1970 + d div 366"] by simp
  moreover have "366 * (d div 366) \<le> d"
  proof -
    have "d = 366 * (d div 366) + d mod 366" by simp
    moreover have "0 \<le> d mod 366" by simp
    ultimately show ?thesis by linarith
  qed
  ultimately show ?thesis using True by simp
next
  case False
  then have "d div 365 \<le> 0" using pos_imp_zdiv_neg_iff [of 365 d] by simp
  then have "DayFromYear (1970 + d div 365) \<le> 365 * (d div 365)"
    using DayFromYear_lower [of "1970 + d div 365"] by simp
  moreover have "365 * (d div 365) \<le> d"
  proof -
    have "d = 365 * (d div 365) + d mod 365" by simp
    moreover have "0 \<le> d mod 365" by simp
    ultimately show ?thesis by linarith
  qed
  ultimately show ?thesis using False by simp
qed

lemma YearFromTime_spec:
  "DayFromYear (YearFromTime t) \<le> Day t \<and> Day t < DayFromYear (YearFromTime t + 1)"
  using yearUp_spec [of "1970 + (if 0 \<le> Day t then Day t div 366 else Day t div 365)" "Day t"]
    year_estimate [of "Day t"]
  by (simp add: YearFromTime_def Let_def)

lemma YearFromTime_unique:
  "DayFromYear y \<le> Day t \<Longrightarrow> Day t < DayFromYear (y + 1) \<Longrightarrow> YearFromTime t = y"
proof -
  assume a: "DayFromYear y \<le> Day t" and b: "Day t < DayFromYear (y + 1)"
  let ?z = "YearFromTime t"
  have z: "DayFromYear ?z \<le> Day t" "Day t < DayFromYear (?z + 1)"
    using YearFromTime_spec by auto
  have "\<not> ?z < y"
  proof
    assume "?z < y"
    then have "DayFromYear (?z + 1) \<le> DayFromYear y" by (intro DayFromYear_mono) simp
    with a z show False by linarith
  qed
  moreover have "\<not> y < ?z"
  proof
    assume "y < ?z"
    then have "DayFromYear (y + 1) \<le> DayFromYear ?z" by (intro DayFromYear_mono) simp
    with b z show False by linarith
  qed
  ultimately show ?thesis by linarith
qed

lemma DayWithinYear_range:
  "0 \<le> DayWithinYear t" "DayWithinYear t < DaysInYear (YearFromTime t)"
  using YearFromTime_spec [of t] DayFromYear_Suc [of "YearFromTime t"]
  by (simp_all add: DayWithinYear_def)

subsection \<open>Months and dates\<close>

lemma InLeapYear_eq: "DaysInYear (YearFromTime t) = 365 + InLeapYear t"
  using DaysInYear_cases [of "YearFromTime t"] by (auto simp: InLeapYear_def)

lemma InLeapYear_cases: "InLeapYear t = 0 \<or> InLeapYear t = 1"
  by (simp add: InLeapYear_def)

lemma MonthFromTime_range: "0 \<le> MonthFromTime t" "MonthFromTime t \<le> 11"
  by (simp_all add: MonthFromTime_def Let_def)

lemma DateFromTime_range:
  "1 \<le> DateFromTime t"
  "DateFromTime t \<le> monthStart (MonthFromTime t + 1) (InLeapYear t)
      - monthStart (MonthFromTime t) (InLeapYear t)"
proof -
  define d where "d = DayWithinYear t"
  define l where "l = InLeapYear t"
  have d: "0 \<le> d" "d < 365 + l"
    using DayWithinYear_range [of t] InLeapYear_eq [of t] by (simp_all add: d_def l_def)
  have l: "l = 0 \<or> l = 1" using InLeapYear_cases [of t] by (simp add: l_def)
  show "1 \<le> DateFromTime t"
    unfolding DateFromTime_def MonthFromTime_def monthStart_def Let_def
      d_def [symmetric] l_def [symmetric]
    using d l by auto
  show "DateFromTime t \<le> monthStart (MonthFromTime t + 1) (InLeapYear t)
      - monthStart (MonthFromTime t) (InLeapYear t)"
    unfolding DateFromTime_def MonthFromTime_def monthStart_def Let_def
      d_def [symmetric] l_def [symmetric]
    using d l by auto
qed

lemma MakeDay_fields: "MakeDay (YearFromTime t) (MonthFromTime t) (DateFromTime t) = Day t"
proof -
  have m: "MonthFromTime t div 12 = 0" "MonthFromTime t mod 12 = MonthFromTime t"
    using MonthFromTime_range [of t] by simp_all
  have l: "(if DaysInYear (YearFromTime t) = 366 then 1 else 0) = InLeapYear t"
    by (simp add: InLeapYear_def)
  show ?thesis
    by (simp add: MakeDay_def Let_def m l DateFromTime_def DayWithinYear_def)
qed

lemma MakeDate_fields:
  "MakeDate (MakeDay (YearFromTime t) (MonthFromTime t) (DateFromTime t))
     (MakeTime (HourFromTime t) (MinFromTime t) (SecFromTime t) (msFromTime t)) = t"
  using time_fields [of t] by (simp add: MakeDay_fields MakeDate_def MakeTime_def)

lemma Day_bounds: "\<bar>t\<bar> \<le> 8640000000000000 \<Longrightarrow> - 100000000 \<le> Day t \<and> Day t \<le> 100000000"
proof -
  assume a: "\<bar>t\<bar> \<le> 8640000000000000"
  have 1: "t = 86400000 * Day t + t mod 86400000" by (simp add: Day_def)
  have 2: "0 \<le> t mod 86400000" "t mod 86400000 < 86400000" by simp_all
  show ?thesis using a 1 2 by linarith
qed

lemma YearFromTime_bounds:
  assumes "\<bar>t\<bar> \<le> 8640000000000000"
  shows "- 300000 < YearFromTime t \<and> YearFromTime t < 300000"
proof -
  let ?y = "YearFromTime t"
  have s: "DayFromYear ?y \<le> Day t" "Day t < DayFromYear (?y + 1)"
    using YearFromTime_spec by auto
  have b: "- 100000000 \<le> Day t" "Day t \<le> 100000000" using Day_bounds [OF assms] by auto
  have "?y < 300000"
  proof (cases "1970 \<le> ?y")
    case True
    from DayFromYear_upper [OF this] have "365 * (?y - 1970) \<le> DayFromYear ?y" by simp
    then show ?thesis using s b by simp
  qed simp
  moreover have "- 300000 < ?y"
  proof (cases "?y + 1 \<le> 1970")
    case True
    from DayFromYear_lower [OF this] have "DayFromYear (?y + 1) \<le> 365 * (?y + 1 - 1970)" by simp
    then show ?thesis using s b by simp
  qed simp
  ultimately show ?thesis by simp
qed

subsection \<open>Fields of a date string\<close>

lemma pad2_length: "0 \<le> n \<Longrightarrow> n < 100 \<Longrightarrow> length (pad2 n) = 2"
  using padStart_exact [of 2 "nat n" "CHR ''0''"] by (simp add: pad2_def)

lemma pad3_length: "0 \<le> n \<Longrightarrow> n < 1000 \<Longrightarrow> length (pad3 n) = 3"
  using padStart_exact [of 3 "nat n" "CHR ''0''"] by (simp add: pad3_def)

lemma pad2_parse: "parseDigits (pad2 n) = Some (nat n)"
  by (simp add: pad2_def parseDigits_pad)

lemma pad3_parse: "parseDigits (pad3 n) = Some (nat n)"
  by (simp add: pad3_def parseDigits_pad)

lemma list2: "length xs = 2 \<Longrightarrow> \<exists>x y. xs = [x, y]"
proof -
  assume "length xs = 2"
  then have "length xs = Suc (Suc 0)" by simp
  then show ?thesis by (auto simp: length_Suc_conv)
qed

lemma list3: "length xs = 3 \<Longrightarrow> \<exists>x y z. xs = [x, y, z]"
proof -
  assume "length xs = 3"
  then have "length xs = Suc (Suc (Suc 0))" by simp
  then show ?thesis by (auto simp: length_Suc_conv)
qed

lemma parseIsoFields_render:
  assumes "length a = 2" "length b = 2" "length c = 2" "length d = 2" "length f = 2"
    "length g = 3"
  shows "parseIsoFields y (''-'' @ a @ ''-'' @ b @ ''T'' @ c @ '':'' @ d @ '':'' @ f @ ''.'' @ g @ ''Z'')
    = Option.bind (parseDigits a) (\<lambda>mo. Option.bind (parseDigits b) (\<lambda>dd.
      Option.bind (parseDigits c) (\<lambda>h. Option.bind (parseDigits d) (\<lambda>mi.
      Option.bind (parseDigits f) (\<lambda>s. Option.bind (parseDigits g) (\<lambda>ms.
        isoFieldsTime y mo dd h mi s ms))))))"
proof -
  obtain a1 a2 where a: "a = [a1, a2]" using list2 [OF assms(1)] by auto
  obtain b1 b2 where b: "b = [b1, b2]" using list2 [OF assms(2)] by auto
  obtain c1 c2 where c: "c = [c1, c2]" using list2 [OF assms(3)] by auto
  obtain d1 d2 where d: "d = [d1, d2]" using list2 [OF assms(4)] by auto
  obtain f1 f2 where f: "f = [f1, f2]" using list2 [OF assms(5)] by auto
  obtain g1 g2 g3 where g: "g = [g1, g2, g3]" using list3 [OF assms(6)] by auto
  show ?thesis unfolding a b c d f g by (simp add: parseIsoFields_def)
qed

lemma isoFieldsTime_fields:
  assumes "\<bar>t\<bar> \<le> 8640000000000000"
  shows "isoFieldsTime (YearFromTime t) (nat (MonthFromTime t + 1)) (nat (DateFromTime t))
           (nat (HourFromTime t)) (nat (MinFromTime t)) (nat (SecFromTime t)) (nat (msFromTime t))
         = Some t"
proof -
  have m: "0 \<le> MonthFromTime t" "MonthFromTime t \<le> 11" using MonthFromTime_range by auto
  have dt: "1 \<le> DateFromTime t"
    "DateFromTime t \<le> monthStart (MonthFromTime t + 1) (InLeapYear t)
      - monthStart (MonthFromTime t) (InLeapYear t)"
    using DateFromTime_range by auto
  have l: "(if DaysInYear (YearFromTime t) = 366 then 1 else 0) = InLeapYear t"
    by (simp add: InLeapYear_def)
  note r = field_ranges [of t]
  have "isoFieldsTime (YearFromTime t) (nat (MonthFromTime t + 1)) (nat (DateFromTime t))
           (nat (HourFromTime t)) (nat (MinFromTime t)) (nat (SecFromTime t)) (nat (msFromTime t))
     = TimeClip (MakeDate (MakeDay (YearFromTime t) (MonthFromTime t) (DateFromTime t))
     (MakeTime (HourFromTime t) (MinFromTime t) (SecFromTime t) (msFromTime t)))"
  proof -
    have c: "1 \<le> nat (MonthFromTime t + 1)" "nat (MonthFromTime t + 1) \<le> 12"
      "1 \<le> nat (DateFromTime t)" "nat (HourFromTime t) \<le> 23"
      "nat (MinFromTime t) \<le> 59" "nat (SecFromTime t) \<le> 59"
      using m dt r by linarith+
    have i: "int (nat (MonthFromTime t + 1)) = MonthFromTime t + 1"
      "int (nat (DateFromTime t)) = DateFromTime t"
      "int (nat (HourFromTime t)) = HourFromTime t" "int (nat (MinFromTime t)) = MinFromTime t"
      "int (nat (SecFromTime t)) = SecFromTime t" "int (nat (msFromTime t)) = msFromTime t"
      using m dt r by simp_all
    show ?thesis
      unfolding isoFieldsTime_def Let_def l i using c dt(2) by simp
  qed
  then show ?thesis using assms by (simp add: MakeDate_fields TimeClip_def)
qed

lemma isoOfTime_tail_parse:
  assumes "\<bar>t\<bar> \<le> 8640000000000000"
  shows "parseIsoFields (YearFromTime t)
     (''-'' @ pad2 (MonthFromTime t + 1) @ ''-'' @ pad2 (DateFromTime t)
     @ ''T'' @ pad2 (HourFromTime t) @ '':'' @ pad2 (MinFromTime t) @ '':'' @ pad2 (SecFromTime t)
     @ ''.'' @ pad3 (msFromTime t) @ ''Z'') = Some t"
proof -
  have m: "0 \<le> MonthFromTime t" "MonthFromTime t \<le> 11" using MonthFromTime_range by auto
  have dt: "1 \<le> DateFromTime t" "DateFromTime t \<le> 31"
    using DateFromTime_range [of t] m InLeapYear_cases [of t]
    by (auto simp: monthStart_def split: if_splits)
  note r = field_ranges [of t]
  show ?thesis
    by (subst parseIsoFields_render)
      (use m dt r in \<open>simp_all add: pad2_length pad3_length pad2_parse pad3_parse
         isoFieldsTime_fields [OF assms]\<close>)
qed

subsection \<open>Parsing what toISOString prints\<close>

lemma digit_not_sign: "isDigit c \<Longrightarrow> c \<noteq> CHR ''+'' \<and> c \<noteq> CHR ''-''"
proof -
  assume d: "isDigit c"
  have "\<not> isDigit CHR ''+''" "\<not> isDigit CHR ''-''" by (simp_all add: isDigit_def)
  with d show ?thesis by blast
qed

lemma padStart_digits: "list_all isDigit (padStart k CHR ''0'' (decimal n))"
  using decimal_digits [of n] by (auto simp: padStart_def list_all_iff isDigit_zero)

lemma Date_parse_unfold:
  "Date_parse s =
     (if s = [] then None
      else if hd s = CHR ''+'' \<or> hd s = CHR ''-'' then
        (case parseDigits (take 6 (tl s)) of
           None \<Rightarrow> None
         | Some y \<Rightarrow>
             if hd s = CHR ''-'' \<and> y = 0 then None
             else parseIsoFields (if hd s = CHR ''-'' then - int y else int y) (drop 6 (tl s)))
      else
        (case parseDigits (take 4 s) of
           None \<Rightarrow> None
         | Some y \<Rightarrow> parseIsoFields (int y) (drop 4 s)))"
  by (cases s) (auto simp: Date_parse_def split: option.splits)

lemma Date_parse_isoOfTime:
  assumes v: "\<bar>t\<bar> \<le> 8640000000000000"
  shows "Date_parse (isoOfTime t) = Some t"
proof -
  define y where "y = YearFromTime t"
  define tail where "tail = ''-'' @ pad2 (MonthFromTime t + 1) @ ''-'' @ pad2 (DateFromTime t)
     @ ''T'' @ pad2 (HourFromTime t) @ '':'' @ pad2 (MinFromTime t) @ '':'' @ pad2 (SecFromTime t)
     @ ''.'' @ pad3 (msFromTime t) @ ''Z''"
  have iso: "isoOfTime t = isoYear y @ tail"
    by (simp add: isoOfTime_def y_def tail_def)
  have tl: "parseIsoFields y tail = Some t"
    unfolding y_def tail_def by (rule isoOfTime_tail_parse [OF v])
  have yb: "- 300000 < y" "y < 300000" using YearFromTime_bounds [OF v] by (simp_all add: y_def)
  show ?thesis
  proof (cases "0 \<le> y \<and> y \<le> 9999")
    case True
    define ys where "ys = padStart 4 CHR ''0'' (decimal (nat y))"
    have "nat y < 10000" using True by linarith
    then have "nat y < 10 ^ 4" by simp
    then have len: "length ys = 4"
      unfolding ys_def by (intro padStart_exact) simp_all
    have dig: "list_all isDigit ys" unfolding ys_def by (rule padStart_digits)
    have val: "parseDigits ys = Some (nat y)" unfolding ys_def by (rule parseDigits_pad)
    have ne: "ys \<noteq> []" using len by auto
    then have "isDigit (hd ys)" using dig by (cases ys) auto
    then have c: "hd ys \<noteq> CHR ''+''" "hd ys \<noteq> CHR ''-''" using digit_not_sign by auto
    have "isoOfTime t = ys @ tail" using iso True by (simp add: isoYear_def ys_def)
    moreover have "Date_parse (ys @ tail) = Some t"
      unfolding Date_parse_unfold using ne c len val tl True by simp
    ultimately show ?thesis by simp
  next
    case False
    define n where "n = nat \<bar>y\<bar>"
    define ys where "ys = padStart 6 CHR ''0'' (decimal n)"
    define c where "c = (if y < 0 then CHR ''-'' else CHR ''+'')"
    have "n < 1000000" using yb unfolding n_def by linarith
    then have nb: "n < 10 ^ 6" by simp
    have len: "length ys = 6"
      unfolding ys_def using nb by (intro padStart_exact) simp_all
    have val: "parseDigits ys = Some n" unfolding ys_def by (rule parseDigits_pad)
    have "isoOfTime t = c # ys @ tail" using iso False by (simp add: isoYear_def ys_def c_def n_def)
    moreover have "Date_parse (c # ys @ tail) = Some t"
    proof (cases "y < 0")
      case True
      then have "c = CHR ''-''" "n \<noteq> 0" "- int n = y" by (simp_all add: c_def n_def)
      then show ?thesis unfolding Date_parse_unfold using len val tl by simp
    next
      case neg: False
      then have "c = CHR ''+''" "int n = y" by (simp_all add: c_def n_def)
      then show ?thesis unfolding Date_parse_unfold using len val tl by simp
    qed
    ultimately show ?thesis by simp
  qed
qed

lemma isoOfTime_inj:
  "\<bar>t\<bar> \<le> 8640000000000000 \<Longrightarrow> \<bar>u\<bar> \<le> 8640000000000000 \<Longrightarrow> isoOfTime t = isoOfTime u \<Longrightarrow> t = u"
proof -
  assume a: "\<bar>t\<bar> \<le> 8640000000000000" and b: "\<bar>u\<bar> \<le> 8640000000000000"
    and e: "isoOfTime t = isoOfTime u"
  have "Some t = Date_parse (isoOfTime t)" using Date_parse_isoOfTime [OF a] by simp
  also have "\<dots> = Date_parse (isoOfTime u)" by (simp only: e)
  also have "\<dots> = Some u" by (rule Date_parse_isoOfTime [OF b])
  finally show "t = u" by simp
qed

subsection \<open>The time a line denotes\<close>

lemma addUTCHours_Some: "addUTCHours delta (Some t) = TimeClip (t + delta * msPerHour)"
proof -
  have "MakeDate (Day t) (MakeTime (HourFromTime t + delta) (MinFromTime t) (SecFromTime t)
          (msFromTime t)) = t + delta * msPerHour"
    using time_fields [of t] by (simp add: MakeDate_def MakeTime_def algebra_simps)
  then show ?thesis by (simp add: addUTCHours_def)
qed

lemma setUTCMilliseconds_Some:
  "setUTCMilliseconds ms (Some t) = TimeClip (t - msFromTime t + ms)"
proof -
  have "MakeDate (Day t) (MakeTime (HourFromTime t) (MinFromTime t) (SecFromTime t) ms)
          = t - msFromTime t + ms"
    using time_fields [of t] by (simp add: MakeDate_def MakeTime_def algebra_simps)
  then show ?thesis by (simp add: setUTCMilliseconds_def)
qed

lemma digitVal_le: "isDigit c \<Longrightarrow> digitVal c \<le> 9"
  by (auto simp: isDigit_def digitVal_def)

lemma digitsVal_bound: "list_all isDigit s \<Longrightarrow> digitsVal s < 10 ^ length s"
proof (induction s rule: rev_induct)
  case Nil
  then show ?case by (simp add: digitsVal_def)
next
  case (snoc c s)
  then have "digitsVal s < 10 ^ length s" "digitVal c \<le> 9"
    by (simp_all add: digitVal_le)
  then show ?case by (simp add: digitsVal_snoc)
qed

lemma digitsVal_le99: "list_all isDigit s \<Longrightarrow> length s \<le> 2 \<Longrightarrow> digitsVal s \<le> 99"
proof -
  assume a: "list_all isDigit s" and b: "length s \<le> 2"
  have "digitsVal s < 10 ^ length s" by (rule digitsVal_bound [OF a])
  also have "(10::nat) ^ length s \<le> 10 ^ 2" using b by (intro power_increasing) simp_all
  finally show ?thesis by simp
qed

lemma matchStamp_Some:
  assumes "matchStamp cls s = Some (mon, ws1, day, ws2, tm)"
  shows "length mon = 3" "list_all cls mon" "ws1 \<noteq> []" "day \<noteq> []" "length day \<le> 2"
    "list_all isDigit day" "ws2 \<noteq> []" "isTime tm"
proof -
  let ?r2 = "dropWhile isSpace (drop 3 s)"
  from assms have d: "day = take 2 (takeWhile isDigit ?r2)"
    by (simp add: matchStamp_def Let_def split: if_splits)
  from assms show "length mon = 3" "list_all cls mon" "ws1 \<noteq> []" "day \<noteq> []" "ws2 \<noteq> []"
    "isTime tm"
    by (auto simp: matchStamp_def Let_def split: if_splits)
  show "length day \<le> 2" by (simp add: d)
  have "set day \<subseteq> set (takeWhile isDigit ?r2)" unfolding d by (rule set_take_subset)
  then show "list_all isDigit day"
    by (auto simp: list_all_iff dest: set_takeWhileD)
qed

lemma isTime_fields:
  assumes "isTime tm"
  shows "digitsVal (take 2 tm) \<le> 99" "digitsVal (take 2 (drop 3 tm)) \<le> 99"
    "digitsVal (take 2 (drop 6 tm)) \<le> 99"
proof -
  from assms have len: "length tm = 8" by (simp add: isTime_def)
  then obtain a b c d f g h i where tm: "tm = [a, b, c, d, f, g, h, i]"
    by (auto simp: length_Suc_conv eval_nat_numeral)
  from assms have dg: "isDigit a" "isDigit b" "isDigit d" "isDigit f" "isDigit h" "isDigit i"
    by (simp_all add: isTime_def tm)
  show "digitsVal (take 2 tm) \<le> 99" "digitsVal (take 2 (drop 3 tm)) \<le> 99"
    "digitsVal (take 2 (drop 6 tm)) \<le> 99"
    using dg by (simp_all add: tm digitsVal_le99)
qed

lemma months_range: "months mon = Some mi \<Longrightarrow> 0 \<le> mi \<and> mi \<le> 11"
  by (auto simp: months_def split: if_splits)

lemma monthStart_bounds:
  assumes "0 \<le> l" "l \<le> 1"
  shows "0 \<le> monthStart m l" "monthStart m l \<le> 366"
  using assms by (simp_all add: monthStart_def)

lemma MakeDay_bounds:
  assumes "1970 \<le> y" "y \<le> 9999" "0 \<le> m" "m \<le> 11" "0 \<le> d" "d \<le> 99"
  shows "- 1 \<le> MakeDay y m d" "MakeDay y m d \<le> 3000000"
proof -
  have md: "m div 12 = 0" "m mod 12 = m" using assms by simp_all
  have 1: "0 \<le> DayFromYear y" "DayFromYear y \<le> 366 * (y - 1970)"
    using DayFromYear_upper [OF assms(1)] assms(1) by simp_all
  define l :: int where "l = (if DaysInYear y = 366 then 1 else 0)"
  have l: "0 \<le> l" "l \<le> 1" by (simp_all add: l_def)
  have 2: "0 \<le> monthStart m l" "monthStart m l \<le> 366"
    using monthStart_bounds [OF l] by simp_all
  have e: "MakeDay y m d = DayFromYear y + monthStart m l + d - 1"
    by (simp add: MakeDay_def Let_def md l_def)
  show "- 1 \<le> MakeDay y m d" unfolding e using 1 2 assms by linarith
  have "366 * (y - 1970) \<le> 366 * 8029" using assms(2) by simp
  then show "MakeDay y m d \<le> 3000000" unfolding e using 1 2 assms by simp
qed

lemma parsedTime_Some:
  assumes "parsedTime y line = Some b" "1970 \<le> y" "y \<le> 9999"
  shows "\<bar>b\<bar> \<le> 300000000000000" "msFromTime b = 0"
proof -
  from assms(1) obtain mon ws1 day ws2 tm mi where
    m: "matchStamp isAlpha line = Some (mon, ws1, day, ws2, tm)" and mo: "months mon = Some mi"
    and b: "b = MakeDate (MakeDay y mi (int (digitsVal day)))
                       (MakeTime (int (digitsVal (take 2 tm)))
                          (int (digitsVal (take 2 (drop 3 tm))))
                          (int (digitsVal (take 2 (drop 6 tm)))) 0) - 7 * msPerHour"
    by (auto simp: parsedTime_def split: option.splits)
  define D where "D = MakeDay y mi (int (digitsVal day))"
  define hh where "hh = int (digitsVal (take 2 tm))"
  define mm where "mm = int (digitsVal (take 2 (drop 3 tm)))"
  define ss where "ss = int (digitsVal (take 2 (drop 6 tm)))"
  have d99: "digitsVal day \<le> 99"
    using matchStamp_Some(5,6) [OF m] by (rule digitsVal_le99 [rotated])
  have t: "0 \<le> hh" "hh \<le> 99" "0 \<le> mm" "mm \<le> 99" "0 \<le> ss" "ss \<le> 99"
    using isTime_fields [OF matchStamp_Some(8) [OF m]] by (simp_all add: hh_def mm_def ss_def)
  have D: "- 1 \<le> D" "D \<le> 3000000"
    unfolding D_def using MakeDay_bounds [OF assms(2,3), of mi "int (digitsVal day)"]
      months_range [OF mo] d99 by simp_all
  have be: "b = D * 86400000 + hh * 3600000 + mm * 60000 + ss * 1000 - 25200000"
    by (simp add: b MakeDate_def MakeTime_def D_def hh_def mm_def ss_def)
  show "\<bar>b\<bar> \<le> 300000000000000" unfolding be using D t by simp
  have "b = 1000 * (D * 86400 + hh * 3600 + mm * 60 + ss - 25200)" unfolding be by simp
  then show "msFromTime b = 0" by (simp add: msFromTime_def)
qed

subsection \<open>The value of getTimestampFromLog\<close>

lemma getTimestampFromLog_eq:
  assumes y: "YearFromTime (LocalTime e (clock e (ticks s))) = y" "1970 \<le> y" "y \<le> 9999"
    and h: "int h \<le> 8000000000000000"
  shows "getTimestampFromLog e line h s =
    (case parsedTime y line of
       None \<Rightarrow> (Inr None, s)
     | Some b \<Rightarrow> (Inr (Some (isoOfTime (b + int h))), s\<lparr>ticks := Suc (ticks s)\<rparr>))"
proof (cases "parsedTime y line")
  case None
  then show ?thesis
    by (auto simp: getTimestampFromLog_def parsedTime_def split: option.splits)
next
  case (Some b)
  then obtain mon ws1 day ws2 tm mi where
    m: "matchStamp isAlpha line = Some (mon, ws1, day, ws2, tm)" and mo: "months mon = Some mi"
    and b: "b = MakeDate (MakeDay y mi (int (digitsVal day)))
                       (MakeTime (int (digitsVal (take 2 tm)))
                          (int (digitsVal (take 2 (drop 3 tm))))
                          (int (digitsVal (take 2 (drop 6 tm)))) 0) - 7 * msPerHour"
    by (auto simp: parsedTime_def split: option.splits)
  have bb: "\<bar>b\<bar> \<le> 300000000000000" "msFromTime b = 0"
    using parsedTime_Some [OF Some y(2,3)] by auto
  have 1: "Date_UTC y mi (int (digitsVal day)) (int (digitsVal (take 2 tm)))
             (int (digitsVal (take 2 (drop 3 tm)))) (int (digitsVal (take 2 (drop 6 tm))))
           = Some (b + 25200000)"
    using y(2) bb(1) by (simp add: Date_UTC_def b TimeClip_def)
  have 2: "addUTCHours (- 7) (Some (b + 25200000)) = Some b"
    using bb(1) by (simp add: addUTCHours_Some TimeClip_def)
  have 3: "setUTCMilliseconds (int h) (Some b) = Some (b + int h)"
    using bb h by (simp add: setUTCMilliseconds_Some TimeClip_def)
  show ?thesis
    unfolding getTimestampFromLog_def
    by (simp add: m mo Some new_Date_def getFullYear_def y(1) Let_def 1 2 3 toISOString_def)
qed

lemma getTimestampFromLog_valid:
  assumes "parsedTime y line = Some b" "1970 \<le> y" "y \<le> 9999" "int h \<le> 8000000000000000"
  shows "\<bar>b + int h\<bar> \<le> 8640000000000000"
  using parsedTime_Some(1) [OF assms(1-3)] assms(4) by simp

section \<open>Facts about the line-by-line loop\<close>

lemma clockInYear_year: "clockInYear e y \<Longrightarrow> YearFromTime (LocalTime e (clock e n)) = y"
  by (simp add: clockInYear_def)

lemma clockInYear_valid: "clockInYear e y \<Longrightarrow> \<bar>clock e n\<bar> \<le> 8640000000000000"
  by (simp add: clockInYear_def)

lemma ticks_update [simp]: "ticks (s\<lparr>ticks := n\<rparr>) = n"
  by simp

lemma resolveTimestamp_eq:
  assumes c: "clockInYear e y" and y: "1970 \<le> y" "y \<le> 9999"
    and h: "\<And>k. int (counterGet cs k) \<le> 8000000000000000"
  shows "resolveTimestamp e line cs s =
    (case parsedTime y line of
       None \<Rightarrow> (Inr (isoOfTime (clock e (ticks s)), cs), s\<lparr>ticks := Suc (ticks s)\<rparr>)
     | Some b \<Rightarrow>
         (Inr (isoOfTime (b + int (counterGet cs (take 19 (isoOfTime b) @ ''Z''))),
               AList.update (take 19 (isoOfTime b) @ ''Z'')
                 (counterGet cs (take 19 (isoOfTime b) @ ''Z'') + 1) cs),
          s\<lparr>ticks := ticks s + 2\<rparr>))"
proof (cases "parsedTime y line")
  case None
  have "getTimestampFromLog e line 0 s = (Inr None, s)"
    using getTimestampFromLog_eq [where e=e and s=s and y=y and h=0 and line=line]
      clockInYear_year [OF c] y None by simp
  then show ?thesis
    by (simp add: resolveTimestamp_def None nowISOString_def new_Date_def)
next
  case (Some b)
  let ?k = "take 19 (isoOfTime b) @ ''Z''"
  let ?s1 = "s\<lparr>ticks := Suc (ticks s)\<rparr>"
  have 1: "getTimestampFromLog e line 0 s = (Inr (Some (isoOfTime b)), ?s1)"
    using getTimestampFromLog_eq [where e=e and s=s and y=y and h=0 and line=line]
      clockInYear_year [OF c] y Some by simp
  have 2: "getTimestampFromLog e line (counterGet cs ?k) ?s1
      = (Inr (Some (isoOfTime (b + int (counterGet cs ?k)))), ?s1\<lparr>ticks := Suc (ticks ?s1)\<rparr>)"
    using getTimestampFromLog_eq [where e=e and s="?s1" and y=y and h="counterGet cs ?k"
        and line=line] clockInYear_year [OF c] y h [of ?k] Some by simp
  show ?thesis
    by (simp add: resolveTimestamp_def Some 1 2 Let_def)
qed

lemma lineStep_eq:
  assumes c: "clockInYear e y" and y: "1970 \<le> y" "y \<le> 9999"
    and h: "\<And>k. int (counterGet cs k) \<le> 8000000000000000"
  shows "lineStep e d line (cs, fe) s =
    (case parsedTime y line of
       None \<Rightarrow>
         (Inr (cs, addEntry (getHourKey e (Some (clock e (ticks s))) @ ''.log'')
                     \<lparr>device_id = d, log_timestamp = isoOfTime (clock e (ticks s)),
                      message = line\<rparr> fe),
          s\<lparr>ticks := Suc (ticks s)\<rparr>)
     | Some b \<Rightarrow>
         (Inr (AList.update (take 19 (isoOfTime b) @ ''Z'')
                 (counterGet cs (take 19 (isoOfTime b) @ ''Z'') + 1) cs,
               addEntry
                 (getHourKey e (Some (b + int (counterGet cs (take 19 (isoOfTime b) @ ''Z''))))
                    @ ''.log'')
                 \<lparr>device_id = d,
                  log_timestamp =
                    isoOfTime (b + int (counterGet cs (take 19 (isoOfTime b) @ ''Z''))),
                  message = line\<rparr> fe),
          s\<lparr>ticks := ticks s + 2\<rparr>))"
proof (cases "parsedTime y line")
  case None
  have v: "Date_parse (isoOfTime (clock e (ticks s))) = Some (clock e (ticks s))"
    by (rule Date_parse_isoOfTime [OF clockInYear_valid [OF c]])
  show ?thesis
    by (simp add: lineStep_def resolveTimestamp_eq [OF c y h] None v Let_def)
next
  case (Some b)
  let ?k = "take 19 (isoOfTime b) @ ''Z''"
  have v: "Date_parse (isoOfTime (b + int (counterGet cs ?k))) = Some (b + int (counterGet cs ?k))"
    by (rule Date_parse_isoOfTime [OF getTimestampFromLog_valid [OF Some y h]])
  show ?thesis
    by (simp add: lineStep_def resolveTimestamp_eq [OF c y h] Some v Let_def)
qed

lemma counterGet_update:
  "counterGet (AList.update k v cs) k' = (if k' = k then v else counterGet cs k')"
  by (simp add: counterGet_def update_conv')

lemma counterGet_Nil [simp]: "counterGet [] k = 0"
  by (simp add: counterGet_def)

lemma groupEntries_Cons:
  "groupEntries (x # xs) fe = groupEntries xs (addEntry (fst x) (snd x) fe)"
  by (simp add: groupEntries_def case_prod_beta)

lemma groupEntries_Nil [simp]: "groupEntries [] fe = fe"
  by (simp add: groupEntries_def)

lemma processLines_same_second:
  assumes c: "clockInYear e y" and y: "1970 \<le> y" "y \<le> 9999"
  shows "(\<forall>l \<in> set ls. parsedTime y l = Some b) \<Longrightarrow>
    (\<forall>k. int (counterGet cs k) + int (length ls) \<le> 8000000000000000) \<Longrightarrow>
    \<exists>cs'. processLines e d ls (cs, fe) s =
      (Inr (cs', groupEntries
                   (map (stampedEntry e d b)
                      (enumerate (counterGet cs (take 19 (isoOfTime b) @ ''Z'')) ls)) fe),
       s\<lparr>ticks := ticks s + 2 * length ls\<rparr>)
      \<and> counterGet cs' (take 19 (isoOfTime b) @ ''Z'')
          = counterGet cs (take 19 (isoOfTime b) @ ''Z'') + length ls"
proof (induction ls arbitrary: cs fe s)
  case Nil
  then show ?case by simp
next
  case (Cons l ls)
  let ?K = "take 19 (isoOfTime b) @ ''Z''"
  let ?c = "counterGet cs ?K"
  let ?cs1 = "AList.update ?K (?c + 1) cs"
  let ?fe1 = "addEntry (getHourKey e (Some (b + int ?c)) @ ''.log'')
                 \<lparr>device_id = d, log_timestamp = isoOfTime (b + int ?c), message = l\<rparr> fe"
  let ?s1 = "s\<lparr>ticks := ticks s + 2\<rparr>"
  have pl: "parsedTime y l = Some b" using Cons.prems(1) by simp
  have h: "int (counterGet cs k) \<le> 8000000000000000" for k
  proof -
    have "int (counterGet cs k) + int (length (l # ls)) \<le> 8000000000000000"
      using Cons.prems(2) by blast
    then show ?thesis by simp
  qed
  have step: "lineStep e d l (cs, fe) s = (Inr (?cs1, ?fe1), ?s1)"
    using lineStep_eq [OF c y h, of d l fe s] pl by simp
  have b1: "\<forall>k. int (counterGet ?cs1 k) + int (length ls) \<le> 8000000000000000"
  proof
    fix k
    have "int (counterGet cs k) + int (length (l # ls)) \<le> 8000000000000000"
      using Cons.prems(2) by blast
    then show "int (counterGet ?cs1 k) + int (length ls) \<le> 8000000000000000"
      by (auto simp: counterGet_update)
  qed
  have p1: "\<forall>l \<in> set ls. parsedTime y l = Some b" using Cons.prems(1) by simp
  from Cons.IH [OF p1 b1, of ?fe1 ?s1] obtain cs' where
    r: "processLines e d ls (?cs1, ?fe1) ?s1 =
      (Inr (cs', groupEntries (map (stampedEntry e d b) (enumerate (counterGet ?cs1 ?K) ls)) ?fe1),
       ?s1\<lparr>ticks := ticks ?s1 + 2 * length ls\<rparr>)"
    and k: "counterGet cs' ?K = counterGet ?cs1 ?K + length ls"
    by blast
  have c1: "counterGet ?cs1 ?K = Suc ?c" by (simp add: counterGet_update)
  have A: "processLines e d (l # ls) (cs, fe) s = processLines e d ls (?cs1, ?fe1) ?s1"
    by (simp add: step)
  have B: "groupEntries (map (stampedEntry e d b) (enumerate (counterGet ?cs1 ?K) ls)) ?fe1
      = groupEntries (map (stampedEntry e d b) (enumerate ?c (l # ls))) fe"
    by (simp add: counterGet_update groupEntries_Cons stampedEntry_def)
  have C: "?s1\<lparr>ticks := ticks ?s1 + 2 * length ls\<rparr> = s\<lparr>ticks := ticks s + 2 * length (l # ls)\<rparr>"
    by simp
  have "processLines e d (l # ls) (cs, fe) s =
      (Inr (cs', groupEntries (map (stampedEntry e d b) (enumerate ?c (l # ls))) fe),
       s\<lparr>ticks := ticks s + 2 * length (l # ls)\<rparr>)"
    unfolding A r B C ..
  moreover have "counterGet cs' ?K = ?c + length (l # ls)" using k c1 by simp
  ultimately show ?case by blast
qed

lemma addEntry_stored:
  "mset (storedEntries (addEntry f en fe)) = mset (storedEntries fe) + {#en#}"
proof (induction fe)
  case Nil
  then show ?case by (simp add: addEntry_def storedEntries_def)
next
  case (Cons p fe)
  obtain k v where p: "p = (k, v)" by (cases p)
  show ?case
  proof (cases "k = f")
    case True
    then show ?thesis by (simp add: addEntry_def storedEntries_def p)
  next
    case False
    then show ?thesis using Cons.IH by (simp add: addEntry_def storedEntries_def p)
  qed
qed

lemma processLines_total:
  assumes c: "clockInYear e y" and y: "1970 \<le> y" "y \<le> 9999"
  shows "(\<forall>k. int (counterGet cs k) + int (length ls) \<le> 8000000000000000) \<Longrightarrow>
    \<exists>cs' fe' s'. processLines e d ls (cs, fe) s = (Inr (cs', fe'), s')
      \<and> mset (map message (storedEntries fe')) = mset (map message (storedEntries fe)) + mset ls
      \<and> (\<forall>k. counterGet cs' k
                = counterGet cs k + length (filter (\<lambda>l. lineKey y l = Some k) ls))"
proof (induction ls arbitrary: cs fe s)
  case Nil
  then show ?case by simp
next
  case (Cons l ls)
  have h: "int (counterGet cs k) \<le> 8000000000000000" for k
  proof -
    have "int (counterGet cs k) + int (length (l # ls)) \<le> 8000000000000000"
      using Cons.prems by blast
    then show ?thesis by simp
  qed
  obtain cs1 f1 en1 s1 where
    step: "lineStep e d l (cs, fe) s = (Inr (cs1, addEntry f1 en1 fe), s1)"
    and msg: "message en1 = l"
    and cnt: "\<forall>k. counterGet cs1 k = counterGet cs k + (if lineKey y l = Some k then 1 else 0)"
  proof (cases "parsedTime y l")
    case None
    then show ?thesis
      using lineStep_eq [OF c y h, of d l fe s] that by (simp add: lineKey_def)
  next
    case (Some b)
    then show ?thesis
      using lineStep_eq [OF c y h, of d l fe s] that
      by (simp add: lineKey_def counterGet_update)
  qed
  have b1: "\<forall>k. int (counterGet cs1 k) + int (length ls) \<le> 8000000000000000"
  proof
    fix k
    have "int (counterGet cs k) + int (length (l # ls)) \<le> 8000000000000000"
      using Cons.prems by blast
    moreover have "counterGet cs1 k \<le> counterGet cs k + 1" using cnt by simp
    ultimately show "int (counterGet cs1 k) + int (length ls) \<le> 8000000000000000"
      by simp
  qed
  from Cons.IH [OF b1, of "addEntry f1 en1 fe" s1] obtain cs' fe' s' where
    r: "processLines e d ls (cs1, addEntry f1 en1 fe) s1 = (Inr (cs', fe'), s')"
    and m: "mset (map message (storedEntries fe'))
        = mset (map message (storedEntries (addEntry f1 en1 fe))) + mset ls"
    and k: "\<forall>k. counterGet cs' k
                = counterGet cs1 k + length (filter (\<lambda>l. lineKey y l = Some k) ls)"
    by blast
  have "processLines e d (l # ls) (cs, fe) s = (Inr (cs', fe'), s')" by (simp add: step r)
  moreover have "mset (map message (storedEntries fe'))
      = mset (map message (storedEntries fe)) + mset (l # ls)"
  proof -
    have "mset (map message (storedEntries (addEntry f1 en1 fe)))
        = image_mset message (mset (storedEntries (addEntry f1 en1 fe)))" by simp
    also have "\<dots> = image_mset message (mset (storedEntries fe) + {#en1#})"
      by (simp only: addEntry_stored)
    also have "\<dots> = mset (map message (storedEntries fe)) + {#l#}" by (simp add: msg)
    finally show ?thesis using m by simp
  qed
  moreover have "\<forall>k. counterGet cs' k
      = counterGet cs k + length (filter (\<lambda>l. lineKey y l = Some k) (l # ls))"
    using k cnt by auto
  ultimately show ?case by blast
qed

lemma ms_field_of_hint:
  assumes "parsedTime y line = Some b" "1970 \<le> y" "y \<le> 9999" "h < 1000"
  shows "Date_parse (isoOfTime (b + int h)) = Some (b + int h)"
    "getUTCMilliseconds (Date_parse (isoOfTime (b + int h))) = Some (int h)"
proof -
  have hb: "int h \<le> 8000000000000000" using assms(4) by simp
  show 1: "Date_parse (isoOfTime (b + int h)) = Some (b + int h)"
    by (rule Date_parse_isoOfTime [OF getTimestampFromLog_valid [OF assms(1-3) hb]])
  have "msFromTime b = 0" using parsedTime_Some(2) [OF assms(1-3)] .
  then have "b mod 1000 = 0" by (simp add: msFromTime_def)
  then have "(b + int h) mod 1000 = int h mod 1000"
    using mod_add_left_eq [of b 1000 "int h"] by simp
  then have "msFromTime (b + int h) = int h" using assms(4) by (simp add: msFromTime_def)
  then show "getUTCMilliseconds (Date_parse (isoOfTime (b + int h))) = Some (int h)"
    by (simp add: 1 getUTCMilliseconds_def)
qed

lemma digit_not_space: "isDigit c \<Longrightarrow> \<not> isSpace c"
  by (auto simp: isDigit_def isSpace_def Let_def)

lemma matchStamp_imp_prefix:
  assumes "matchStamp cls s = Some (mon, ws1, day, ws2, tm)"
  shows "stampPrefix cls s mon ws1 day ws2 tm"
proof -
  define r1 where "r1 = drop 3 s"
  define r2 where "r2 = dropWhile isSpace r1"
  define r3 where "r3 = drop (length day) r2"
  define r4 where "r4 = dropWhile isSpace r3"
  from assms have e: "mon = take 3 s" "ws1 = takeWhile isSpace r1"
    "day = take 2 (takeWhile isDigit r2)" "ws2 = takeWhile isSpace r3" "tm = take 8 r4"
    unfolding r1_def r2_def r3_def r4_def
    by (auto simp add: matchStamp_def Let_def simp del: length_take split: if_splits)
  note f = matchStamp_Some [OF assms]
  have "length tm = 8" using f(8) by (simp add: isTime_def)
  have s1: "s = mon @ r1" by (simp add: e r1_def)
  have s2: "r1 = ws1 @ r2" by (simp add: e r2_def)
  have "take (length day) r2 = day"
  proof -
    have "day = take 2 (takeWhile isDigit r2)" by (rule e(3))
    moreover have "takeWhile isDigit r2 = take (length (takeWhile isDigit r2)) r2"
      by (metis takeWhile_eq_take)
    ultimately have "day = take (min 2 (length (takeWhile isDigit r2))) r2"
      by (metis take_take)
    moreover have "length day = min 2 (length (takeWhile isDigit r2))" by (simp add: e(3))
    ultimately show ?thesis by simp
  qed
  then have s3: "r2 = day @ r3" by (metis append_take_drop_id r3_def)
  have s4: "r3 = ws2 @ r4" by (simp add: e r4_def)
  have s5: "r4 = tm @ drop 8 r4" by (simp add: e)
  have "s = mon @ ws1 @ day @ ws2 @ tm @ drop 8 r4"
    using s1 s2 s3 s4 s5 by simp
  moreover have "list_all isSpace ws1" "list_all isSpace ws2"
    by (auto simp: e list_all_iff dest: set_takeWhileD)
  moreover have "length day = 1 \<or> length day = 2"
    using f(4,5) by (cases day) (auto simp: le_Suc_eq)
  ultimately show ?thesis
    unfolding stampPrefix_def using f by blast
qed

lemma prefix_imp_matchStamp:
  assumes "stampPrefix cls s mon ws1 day ws2 tm"
  shows "matchStamp cls s = Some (mon, ws1, day, ws2, tm)"
proof -
  from assms obtain rest where
    s: "s = mon @ ws1 @ day @ ws2 @ tm @ rest" and m: "length mon = 3" "list_all cls mon"
    and w1: "ws1 \<noteq> []" "list_all isSpace ws1"
    and d: "length day = 1 \<or> length day = 2" "list_all isDigit day"
    and w2: "ws2 \<noteq> []" "list_all isSpace ws2" and t: "isTime tm"
    unfolding stampPrefix_def by blast
  have tl: "length tm = 8" "isDigit (tm ! 0)" using t by (simp_all add: isTime_def)
  then obtain t0 tr where tm: "tm = t0 # tr" by (cases tm) auto
  have t0: "\<not> isSpace t0" using tl(2) tm digit_not_space by simp
  obtain d0 dr where day: "day = d0 # dr" using d(1) by (cases day) auto
  have d0: "\<not> isSpace d0" using d(2) day digit_not_space by simp
  obtain v0 vr where ws2: "ws2 = v0 # vr" using w2(1) by (cases ws2) auto
  have v0: "\<not> isDigit v0" using w2(2) ws2 digit_not_space by auto
  have a1: "take 3 s = mon" "drop 3 s = ws1 @ day @ ws2 @ tm @ rest" using s m by simp_all
  have a2: "takeWhile isSpace (ws1 @ day @ ws2 @ tm @ rest) = ws1"
    "dropWhile isSpace (ws1 @ day @ ws2 @ tm @ rest) = day @ ws2 @ tm @ rest"
    using w1(2) d0 by (simp_all add: day list_all_iff takeWhile_append2 dropWhile_append2)
  have a3: "takeWhile isDigit (day @ ws2 @ tm @ rest) = day"
    using d(2) v0 by (simp add: ws2 list_all_iff takeWhile_append2)
  have a4: "take 2 day = day" using d(1) by auto
  have a5: "takeWhile isSpace (ws2 @ tm @ rest) = ws2"
    "dropWhile isSpace (ws2 @ tm @ rest) = tm @ rest"
    using w2(2) t0 by (simp_all add: tm list_all_iff takeWhile_append2 dropWhile_append2)
  have a6: "take 8 (tm @ rest) = tm" using tl(1) by simp
  have r3: "drop (length day) (day @ ws2 @ tm @ rest) = ws2 @ tm @ rest" by simp
  show ?thesis
    unfolding matchStamp_def Let_def a1 a2 a3 a4 r3 a5 a6 using m w1 w2 t day
    by simp
qed

lemma matchStamp_iff:
  "matchStamp cls s = Some (mon, ws1, day, ws2, tm) \<longleftrightarrow> stampPrefix cls s mon ws1 day ws2 tm"
  using matchStamp_imp_prefix prefix_imp_matchStamp by blast

lemma getTimestampFromLog_null_iff:
  "fst (getTimestampFromLog e line h s) = Inr None \<longleftrightarrow>
     (matchStamp isAlpha line = None
      \<or> (\<exists>mon ws1 day ws2 tm. matchStamp isAlpha line = Some (mon, ws1, day, ws2, tm)
            \<and> months mon = None))"
proof (cases "matchStamp isAlpha line")
  case None
  then show ?thesis by (simp add: getTimestampFromLog_def)
next
  case (Some x)
  obtain mon ws1 day ws2 tm where x: "x = (mon, ws1, day, ws2, tm)" by (cases x)
  show ?thesis
  proof (cases "months mon")
    case None
    then show ?thesis using Some x by (simp add: getTimestampFromLog_def)
  next
    case (Some mi)
    have "fst (getTimestampFromLog e line h s) \<noteq> Inr None"
      using \<open>matchStamp isAlpha line = Some x\<close> x Some
      by (auto simp: getTimestampFromLog_def Let_def new_Date_def toISOString_def
          split: option.splits)
    then show ?thesis using \<open>matchStamp isAlpha line = Some x\<close> x Some by simp
  qed
qed

lemma getTimestampFromLog_null_state:
  "fst (getTimestampFromLog e line h s) = Inr None \<Longrightarrow> getTimestampFromLog e line h s = (Inr None, s)"
  by (auto simp: getTimestampFromLog_def Let_def new_Date_def toISOString_def
      split: option.splits)

subsection \<open>Submissions whose lines share one second\<close>

lemma splitLines_line:
  "CHR 0x0A \<notin> set l \<Longrightarrow> splitLines (l @ CHR 0x0A # rest) = l # splitLines rest"
proof (induction l)
  case Nil
  then show ?case by simp
next
  case (Cons c l)
  then show ?case by auto
qed

lemma splitLines_replicate:
  assumes "CHR 0x0A \<notin> set l" "l \<noteq> []"
  shows "filter (\<lambda>line. length line > 0) (splitLines (concat (replicate n (l @ [CHR 0x0A]))))
         = replicate n l"
proof (induction n)
  case 0
  then show ?case by simp
next
  case (Suc n)
  have "splitLines (concat (replicate (Suc n) (l @ [CHR 0x0A])))
      = l # splitLines (concat (replicate n (l @ [CHR 0x0A])))"
    using splitLines_line [OF assms(1)] by simp
  then show ?case using Suc assms(2) by simp
qed

lemma groupEntries_same_file:
  "(\<forall>x \<in> set xs. fst x = f) \<Longrightarrow> groupEntries xs [(f, es)] = [(f, es @ map snd xs)]"
proof (induction xs arbitrary: es)
  case Nil
  then show ?case by simp
next
  case (Cons x xs)
  then have "fst x = f" by simp
  then have "addEntry (fst x) (snd x) [(f, es)] = [(f, es @ [snd x])]"
    by (simp add: addEntry_def)
  then show ?case using Cons by (simp add: groupEntries_Cons)
qed

lemma groupEntries_single:
  assumes "\<forall>x \<in> set xs. fst x = f" "xs \<noteq> []"
  shows "groupEntries xs [] = [(f, map snd xs)]"
proof -
  obtain x xs' where xs: "xs = x # xs'" using assms(2) by (cases xs) auto
  have "addEntry (fst x) (snd x) [] = [(f, [snd x])]" using assms(1) xs by (simp add: addEntry_def)
  then show ?thesis
    using groupEntries_same_file [of xs' f "[snd x]"] assms(1) xs
    by (simp add: groupEntries_Cons)
qed

lemma exampleEnv_clockInYear: "clockInYear exampleEnv 2025"
proof -
  have "YearFromTime 1756990000000 = 2025" by code_simp
  then show ?thesis by (simp add: clockInYear_def exampleEnv_def LocalTime_def)
qed

lemma div_between:
  fixes t :: int
  assumes "c * q \<le> t" "t < c * q + c" "0 < c"
  shows "t div c = q"
  by (rule int_div_pos_eq [of t c q "t - c * q"]) (use assms in simp_all)

lemma hourKey_example:
  fixes i :: int
  assumes "0 \<le> i" "i \<le> 1000"
  shows "getHourKey exampleEnv (Some (1756965181000 + i)) = ''2025-09-04-05''"
proof -
  let ?t = "1756965181000 + i"
  have d: "Day ?t = 20335"
    unfolding Day_def by (rule div_between) (use assms in simp_all)
  have y: "YearFromTime ?t = 2025"
    by (rule YearFromTime_unique) (simp_all add: d DayFromYear_def)
  have l: "InLeapYear ?t = 0" by (simp add: InLeapYear_def y DaysInYear_def)
  have w: "DayWithinYear ?t = 246" by (simp add: DayWithinYear_def y d DayFromYear_def)
  have m: "MonthFromTime ?t = 8" by (simp add: MonthFromTime_def w l)
  have dt: "DateFromTime ?t = 4" by (simp add: DateFromTime_def w l m monthStart_def)
  have "?t div 3600000 = 488045" by (rule div_between) (use assms in simp_all)
  then have h: "HourFromTime ?t = 5" by (simp add: HourFromTime_def)
  have "getHourKey exampleEnv (Some ?t)
      = String_num (Some 2025) @ ''-'' @ padStart 2 CHR ''0'' (String_num (plusOne (Some 8)))
        @ ''-'' @ padStart 2 CHR ''0'' (String_num (Some 4))
        @ ''-'' @ padStart 2 CHR ''0'' (String_num (Some 5))"
    by (simp add: getHourKey_def getFullYear_def getMonth_def getDate_def getHours_def
        LocalTime_def exampleEnv_def y m dt h Let_def)
  also have "\<dots> = ''2025-09-04-05''" by code_simp
  finally show ?thesis .
qed

lemma trackRequest_ticks: "ticks (trackRequest e s) = Suc (ticks s)"
  by (simp add: trackRequest_def Date_now_def)

lemma trackRequest_files: "files (trackRequest e s) = files s"
  by (simp add: trackRequest_def Date_now_def)

lemma processLog_same_second:
  assumes c: "clockInYear e y" "1970 \<le> y" "y \<le> 9999"
    and ls: "filter (\<lambda>line. length line > 0) (splitLines logContent) = ls" "ls \<noteq> []"
    and b: "\<forall>l \<in> set ls. parsedTime y l = Some b"
    and n: "int (length ls) \<le> 8000000000000000"
    and fe: "fe = groupEntries (map (stampedEntry e d b) (enumerate 0 ls)) []"
    and s1: "s1 = trackRequest e s"
  shows "processLogContentLineByLine e d logContent s =
      (Inr \<lparr>success = True, linesProcessed = length ls, filesWritten = length fe\<rparr>,
       writeEntries fe (s1\<lparr>ticks := ticks s1 + 2 * length ls\<rparr>))"
proof -
  have bd: "\<forall>k. int (counterGet [] k) + int (length ls) \<le> 8000000000000000"
    using n by simp
  from processLines_same_second [OF c b bd, of d "[]" s1] obtain cs' where
    "processLines e d ls ([], []) s1 = (Inr (cs', fe), s1\<lparr>ticks := ticks s1 + 2 * length ls\<rparr>)"
    unfolding fe by auto
  then show ?thesis
    using ls by (simp add: processLogContentLineByLine_def Let_def s1 [symmetric])
qed

lemma hint_ms_fields:
  assumes "1970 \<le> y" "y \<le> 9999" "\<forall>l \<in> set ls. parsedTime y l = Some b"
  shows "\<forall>i < length ls. i < 1000 \<longrightarrow>
      getUTCMilliseconds (Date_parse (log_timestamp (snd (stampedEntry e d b (i, ls ! i)))))
        = Some (int i)"
proof (intro allI impI)
  fix i assume i: "i < length ls" "i < 1000"
  then have "parsedTime y (ls ! i) = Some b" using assms(3) by simp
  from ms_field_of_hint(2) [OF this assms(1,2) i(2)]
  show "getUTCMilliseconds (Date_parse (log_timestamp (snd (stampedEntry e d b (i, ls ! i)))))
        = Some (int i)"
    by (simp add: stampedEntry_def)
qed

lemma getHourKey_cong: "localTZA e' = localTZA e \<Longrightarrow> getHourKey e' ts = getHourKey e ts"
  by (cases ts)
    (simp_all add: getHourKey_def getFullYear_def getMonth_def getDate_def getHours_def
      LocalTime_def)

subsection \<open>Lines without a timestamp, and counters\<close>

lemma months_None_iff:
  "months mon = None \<longleftrightarrow>
     mon \<notin> set [''Jan'', ''Feb'', ''Mar'', ''Apr'', ''May'', ''Jun'',
                 ''Jul'', ''Aug'', ''Sep'', ''Oct'', ''Nov'', ''Dec'']"
  by (simp add: months_def)

lemma null_iff_prefix:
  "fst (getTimestampFromLog e line h s) = Inr None \<longleftrightarrow>
     (\<forall>mon ws1 day ws2 tm. \<not> stampPrefix isAlpha line mon ws1 day ws2 tm)
     \<or> (\<exists>mon ws1 day ws2 tm. stampPrefix isAlpha line mon ws1 day ws2 tm
           \<and> mon \<notin> set [''Jan'', ''Feb'', ''Mar'', ''Apr'', ''May'', ''Jun'',
                            ''Jul'', ''Aug'', ''Sep'', ''Oct'', ''Nov'', ''Dec''])"
proof -
  have "matchStamp isAlpha line = None
      \<longleftrightarrow> (\<forall>mon ws1 day ws2 tm. \<not> stampPrefix isAlpha line mon ws1 day ws2 tm)"
  proof
    assume "matchStamp isAlpha line = None"
    then show "\<forall>mon ws1 day ws2 tm. \<not> stampPrefix isAlpha line mon ws1 day ws2 tm"
      using prefix_imp_matchStamp by fastforce
  next
    assume a: "\<forall>mon ws1 day ws2 tm. \<not> stampPrefix isAlpha line mon ws1 day ws2 tm"
    show "matchStamp isAlpha line = None"
    proof (cases "matchStamp isAlpha line")
      case (Some x)
      obtain mon ws1 day ws2 tm where "x = (mon, ws1, day, ws2, tm)" by (cases x)
      then show ?thesis using Some matchStamp_imp_prefix a by blast
    qed simp
  qed
  then show ?thesis
    unfolding getTimestampFromLog_null_iff months_None_iff [symmetric] matchStamp_iff
    by simp
qed

lemma null_fallback:
  assumes "fst (getTimestampFromLog e line 0 s) = Inr None"
  shows "resolveTimestamp e line cs s
      = (Inr (isoOfTime (clock e (ticks s)), cs), s\<lparr>ticks := Suc (ticks s)\<rparr>)"
  using getTimestampFromLog_null_state [OF assms]
  by (simp add: resolveTimestamp_def nowISOString_def new_Date_def)

lemma every_line_one_entry:
  assumes "clockInYear e y" "1970 \<le> y" "y \<le> 9999" "int (length ls) \<le> 8000000000000000"
  shows "\<exists>cs' fe' s'. processLines e d ls ([], []) s = (Inr (cs', fe'), s')
      \<and> mset (map message (storedEntries fe')) = mset ls"
proof -
  have b: "\<forall>k. int (counterGet [] k) + int (length ls) \<le> 8000000000000000"
    using assms(4) by simp
  from processLines_total [OF assms(1-3) b, of d "[]" s]
  show ?thesis by (auto simp: storedEntries_def)
qed

lemma counterGet_filter:
  "counterGet (filter (\<lambda>(key, c). P key) al) k = (if P k then counterGet al k else 0)"
proof -
  have "map_of (filter (\<lambda>(key, c). P key) al) k = (if P k then map_of al k else None)"
    by (induction al) auto
  then show ?thesis by (simp add: counterGet_def)
qed

lemma batch_next_hint:
  assumes c: "clockInYear e y" "1970 \<le> y" "y \<le> 9999"
    and n: "int (length ls) \<le> 8000000000000000"
    and r: "processLines e d ls ([], []) s = (Inr (cs, fe), s1)"
    and p: "parsedTime y l = Some b"
  shows "resolveTimestamp e l cs s1 =
      (Inr (isoOfTime (b + int (length (filter (\<lambda>x. lineKey y x = lineKey y l) ls))),
            AList.update (take 19 (isoOfTime b) @ ''Z'')
              (length (filter (\<lambda>x. lineKey y x = lineKey y l) ls) + 1) cs),
       s1\<lparr>ticks := ticks s1 + 2\<rparr>)"
proof -
  have b0: "\<forall>k. int (counterGet [] k) + int (length ls) \<le> 8000000000000000"
    using n by simp
  from processLines_total [OF c b0, of d "[]" s] r
  have cnt: "counterGet cs k = length (filter (\<lambda>l. lineKey y l = Some k) ls)" for k
    by auto
  have h: "int (counterGet cs k) \<le> 8000000000000000" for k
  proof -
    have "length (filter (\<lambda>l. lineKey y l = Some k) ls) \<le> length ls" by (rule length_filter_le)
    then have "int (counterGet cs k) \<le> int (length ls)" by (simp only: cnt of_nat_le_iff)
    then show ?thesis using n by linarith
  qed
  have k: "lineKey y l = Some (take 19 (isoOfTime b) @ ''Z'')" by (simp add: lineKey_def p)
  show ?thesis
    using resolveTimestamp_eq [OF c h, of l s1] by (simp add: p cnt k)
qed

lemma legacy_counter_step:
  assumes m: "matchStamp isWord msg = Some (mon, ws1, day, ws2, tm)"
    and p: "legacyParse e (mon @ ws1 @ day @ ws2 @ tm @ '' ''
              @ String_num (getFullYear e (Some (clock e (ticks s))))) = Some base"
    and k: "key = formatTimestampKey base"
    and c: "counter = counterGet (timestampCounters s) key + 1"
    and v: "\<bar>base\<bar> \<le> 8640000000000000" "\<bar>base + int counter\<bar> \<le> 8640000000000000"
    and np: "\<not> strLess key (formatTimestampKey (clock e (Suc (ticks s)) - 60 * 60 * 1000))"
  shows "fst (parseAndEnhanceTimestamp e msg s) =
      Inr \<lparr>baseTimestamp = base, enhancedTimestamp = isoOfTime (base + int counter),
           hourKey = getHourKey e (Some base)\<rparr>"
    and "counterGet (timestampCounters (snd (parseAndEnhanceTimestamp e msg s))) key = counter"
proof -
  have tc: "Option.bind (Some base) TimeClip = Some base" using v(1) by (simp add: TimeClip_def)
  have tc2: "TimeClip (base + int (Suc (counterGet (timestampCounters s) (formatTimestampKey base))))
      = Some (base + int (Suc (counterGet (timestampCounters s) (formatTimestampKey base))))"
    using v(2) c k by (simp add: TimeClip_def)
  show "fst (parseAndEnhanceTimestamp e msg s) =
      Inr \<lparr>baseTimestamp = base, enhancedTimestamp = isoOfTime (base + int counter),
           hourKey = getHourKey e (Some base)\<rparr>"
    using p tc tc2
    by (simp add: parseAndEnhanceTimestamp_def m new_Date_def Let_def toISOString_def c k)
  show "counterGet (timestampCounters (snd (parseAndEnhanceTimestamp e msg s))) key = counter"
    using p tc tc2 np
    by (simp add: parseAndEnhanceTimestamp_def m new_Date_def Let_def toISOString_def c k
        cleanOldCounters_def Date_now_def counterGet_filter counterGet_update)
qed

subsection \<open>What a submission appends to the incoming area\<close>

lemma getTimestampFromLog_files: "files (snd (getTimestampFromLog e l h s)) = files s"
  by (simp add: getTimestampFromLog_def new_Date_def Let_def split: option.splits prod.splits)

lemma resolveTimestamp_files: "files (snd (resolveTimestamp e l cs s)) = files s"
proof -
  have n: "files (snd (nowISOString e s0)) = files s0" for s0
    by (simp add: nowISOString_def new_Date_def)
  obtain r1 s1 where 1: "getTimestampFromLog e l 0 s = (r1, s1)" by (cases "getTimestampFromLog e l 0 s")
  have f1: "files s1 = files s" using getTimestampFromLog_files [of e l 0 s] 1 by simp
  show ?thesis
  proof (cases r1)
    case (Inl err)
    then show ?thesis by (simp add: resolveTimestamp_def 1 f1)
  next
    case (Inr o1)
    show ?thesis
    proof (cases o1)
      case None
      obtain x1 x2 where 3: "nowISOString e s1 = (x1, x2)" by (cases "nowISOString e s1")
      have "files x2 = files s" using n [of s1] 3 f1 by simp
      then show ?thesis
        by (simp add: resolveTimestamp_def 1 Inr None 3)
    next
      case (Some base)
      let ?c = "counterGet cs (take 19 base @ ''Z'')"
      obtain r2 s2 where 2: "getTimestampFromLog e l ?c s1 = (r2, s2)"
        by (cases "getTimestampFromLog e l ?c s1")
      have f2: "files s2 = files s" using getTimestampFromLog_files [of e l ?c s1] 2 f1 by simp
      obtain x1 x2 where 3: "nowISOString e s2 = (x1, x2)" by (cases "nowISOString e s2")
      have f3: "files x2 = files s" using n [of s2] 3 f2 by simp
      show ?thesis
        by (simp add: resolveTimestamp_def 1 Inr Some 2 3 f2 f3 Let_def
            split: sum.splits option.splits)
    qed
  qed
qed

lemma lineStep_files: "files (snd (lineStep e d l acc s)) = files s"
proof -
  obtain cs fe where acc: "acc = (cs, fe)" by (cases acc)
  obtain r s1 where 1: "resolveTimestamp e l cs s = (r, s1)" by (cases "resolveTimestamp e l cs s")
  have "files s1 = files s" using resolveTimestamp_files [of e l cs s] 1 by simp
  then show ?thesis
    by (simp add: lineStep_def acc 1 Let_def split: sum.splits prod.splits)
qed

lemma processLines_files: "files (snd (processLines e d ls acc s)) = files s"
proof (induction ls arbitrary: acc s)
  case Nil
  then show ?case by simp
next
  case (Cons l ls)
  obtain r s1 where 1: "lineStep e d l acc s = (r, s1)" by (cases "lineStep e d l acc s")
  have f: "files s1 = files s" using lineStep_files [of e d l acc s] 1 by simp
  show ?case
  proof (cases r)
    case (Inl err)
    then show ?thesis by (simp add: 1 f)
  next
    case (Inr acc')
    then show ?thesis using Cons.IH [of acc' s1] by (simp add: 1 f)
  qed
qed

lemma append_chunks:
  "mset (concat (map snd (filter (\<lambda>x. fst (fst x) = Incoming)
      (AList.update (Incoming, f)
         ((case map_of xs (Incoming, f) of None \<Rightarrow> [] | Some old \<Rightarrow> old) @ c) xs))))
   = mset (concat (map snd (filter (\<lambda>x. fst (fst x) = Incoming) xs))) + mset c"
proof (induction xs)
  case Nil
  then show ?case by simp
next
  case (Cons x xs)
  obtain k v where x: "x = (k, v)" by (cases x)
  show ?case
  proof (cases "k = (Incoming, f)")
    case True
    then show ?thesis by (simp add: x)
  next
    case False
    then show ?thesis using Cons.IH by (simp add: x)
  qed
qed

lemma fs_appendFile_chunks:
  "mset (incomingChunks (fs_appendFile (Incoming, f) c s)) = mset (incomingChunks s) + mset c"
  by (simp add: incomingChunks_def fs_appendFile_def append_chunks)

lemma writeEntries_chunks:
  "mset (incomingChunks (writeEntries fe s))
     = mset (incomingChunks s) + mset (map EntryLine (storedEntries fe))"
proof (induction fe arbitrary: s)
  case Nil
  then show ?case by (simp add: storedEntries_def)
next
  case (Cons p fe)
  obtain f es where p: "p = (f, es)" by (cases p)
  show ?case
    using Cons.IH [of "fs_appendFile (Incoming, f) (map EntryLine es) s"]
    by (simp add: p fs_appendFile_chunks storedEntries_def)
qed

lemma incomingChunks_files: "files s' = files s \<Longrightarrow> incomingChunks s' = incomingChunks s"
  by (simp add: incomingChunks_def)

lemma addEntry_stored_set:
  "set (storedEntries (addEntry f en fe)) = insert en (set (storedEntries fe))"
proof -
  have "set_mset (mset (storedEntries (addEntry f en fe)))
      = set_mset (mset (storedEntries fe) + {#en#})"
    by (simp only: addEntry_stored)
  then show ?thesis by simp
qed

lemma processLines_fallback:
  assumes c: "clockInYear e y" and y: "1970 \<le> y" "y \<le> 9999"
  shows "(\<forall>k. int (counterGet cs k) + int (length ls) \<le> 8000000000000000) \<Longrightarrow>
    \<exists>cs' fe' s'. processLines e d ls (cs, fe) s = (Inr (cs', fe'), s')
      \<and> (\<forall>en \<in> set (storedEntries fe'). en \<in> set (storedEntries fe)
            \<or> (device_id en = d
                \<and> (parsedTime y (message en) = None
                      \<longrightarrow> (\<exists>n. log_timestamp en = isoOfTime (clock e n)))))"
proof (induction ls arbitrary: cs fe s)
  case Nil
  then show ?case by simp
next
  case (Cons l ls)
  have h: "int (counterGet cs k) \<le> 8000000000000000" for k
  proof -
    have "int (counterGet cs k) + int (length (l # ls)) \<le> 8000000000000000"
      using Cons.prems by blast
    then show ?thesis by simp
  qed
  obtain cs1 f1 en1 s1 where
    step: "lineStep e d l (cs, fe) s = (Inr (cs1, addEntry f1 en1 fe), s1)"
    and dev: "device_id en1 = d"
    and fb: "parsedTime y (message en1) = None \<longrightarrow> (\<exists>n. log_timestamp en1 = isoOfTime (clock e n))"
    and cnt: "\<forall>k. counterGet cs1 k \<le> counterGet cs k + 1"
  proof (cases "parsedTime y l")
    case None
    have st: "lineStep e d l (cs, fe) s
        = (Inr (cs, addEntry (getHourKey e (Some (clock e (ticks s))) @ ''.log'')
                     \<lparr>device_id = d, log_timestamp = isoOfTime (clock e (ticks s)),
                      message = l\<rparr> fe),
           s\<lparr>ticks := Suc (ticks s)\<rparr>)"
      using lineStep_eq [OF c y h, of d l fe s] None by simp
    show ?thesis
    proof (rule that [OF st])
      show "\<forall>k. counterGet cs k \<le> counterGet cs k + 1" by simp
      show "parsedTime y (message \<lparr>device_id = d, log_timestamp = isoOfTime (clock e (ticks s)),
                      message = l\<rparr>) = None
          \<longrightarrow> (\<exists>n. log_timestamp \<lparr>device_id = d,
                  log_timestamp = isoOfTime (clock e (ticks s)), message = l\<rparr>
                = isoOfTime (clock e n))"
        by auto
    qed simp
  next
    case (Some b)
    then show ?thesis
      using lineStep_eq [OF c y h, of d l fe s] that
      by (simp add: counterGet_update)
  qed
  have b1: "\<forall>k. int (counterGet cs1 k) + int (length ls) \<le> 8000000000000000"
  proof
    fix k
    have "int (counterGet cs k) + int (length (l # ls)) \<le> 8000000000000000"
      using Cons.prems by blast
    moreover have "counterGet cs1 k \<le> counterGet cs k + 1" using cnt by simp
    ultimately show "int (counterGet cs1 k) + int (length ls) \<le> 8000000000000000"
      by simp
  qed
  from Cons.IH [OF b1, of "addEntry f1 en1 fe" s1] obtain cs' fe' s' where
    r: "processLines e d ls (cs1, addEntry f1 en1 fe) s1 = (Inr (cs', fe'), s')"
    and q: "\<forall>en \<in> set (storedEntries fe'). en \<in> set (storedEntries (addEntry f1 en1 fe))
            \<or> (device_id en = d
                \<and> (parsedTime y (message en) = None
                      \<longrightarrow> (\<exists>n. log_timestamp en = isoOfTime (clock e n))))"
    by blast
  have "processLines e d (l # ls) (cs, fe) s = (Inr (cs', fe'), s')" by (simp add: step r)
  moreover have "\<forall>en \<in> set (storedEntries fe'). en \<in> set (storedEntries fe)
            \<or> (device_id en = d
                \<and> (parsedTime y (message en) = None
                      \<longrightarrow> (\<exists>n. log_timestamp en = isoOfTime (clock e n))))"
    using q dev fb by (auto simp: addEntry_stored_set)
  ultimately show ?case by blast
qed

lemma null_parsedTime:
  assumes "clockInYear e y" "1970 \<le> y" "y \<le> 9999"
    and "fst (getTimestampFromLog e line 0 s) = Inr None"
  shows "parsedTime y line = None"
proof (cases "parsedTime y line")
  case None
  then show ?thesis .
next
  case (Some b)
  have "getTimestampFromLog e line 0 s
      = (Inr (Some (isoOfTime (b + int 0))), s\<lparr>ticks := Suc (ticks s)\<rparr>)"
    using getTimestampFromLog_eq [OF clockInYear_year [OF assms(1)] assms(2,3),
        where h=0 and s=s and line=line] Some
    by simp
  with assms(4) show ?thesis by simp
qed

lemma every_line_has_entry:
  assumes "clockInYear e y" "1970 \<le> y" "y \<le> 9999"
    and ls: "filter (\<lambda>line. length line > 0) (splitLines logContent) = ls"
    and n: "int (length ls) \<le> 8000000000000000"
  shows "\<exists>r s' es. processLogContentLineByLine e d logContent s = (Inr r, s')
      \<and> success r = (ls \<noteq> []) \<and> linesProcessed r = length ls
      \<and> mset (incomingChunks s') = mset (incomingChunks s) + mset (map EntryLine es)
      \<and> mset (map message es) = mset ls
      \<and> (\<forall>en \<in> set es. device_id en = d
            \<and> (fst (getTimestampFromLog e (message en) 0 s) = Inr None
                  \<longrightarrow> (\<exists>n. log_timestamp en = isoOfTime (clock e n))))"
proof (cases "ls = []")
  case True
  have "processLogContentLineByLine e d logContent s
      = (Inr \<lparr>success = False, linesProcessed = 0, filesWritten = 0\<rparr>, trackRequest e s)"
    using ls True by (simp add: processLogContentLineByLine_def Let_def)
  moreover have "incomingChunks (trackRequest e s) = incomingChunks s"
    by (rule incomingChunks_files) (rule trackRequest_files)
  ultimately show ?thesis using True
    by (intro exI [of _ "\<lparr>success = False, linesProcessed = 0, filesWritten = 0\<rparr>"]
        exI [of _ "trackRequest e s"] exI [of _ "[]"]) simp
next
  case False
  let ?s1 = "trackRequest e s"
  have bd: "\<forall>k. int (counterGet [] k) + int (length ls) \<le> 8000000000000000"
    using n by simp
  from every_line_one_entry [OF assms(1-3) n, of d ?s1] obtain cs' fe' s2 where
    p: "processLines e d ls ([], []) ?s1 = (Inr (cs', fe'), s2)"
    and m: "mset (map message (storedEntries fe')) = mset ls" by blast
  from processLines_fallback [OF assms(1-3) bd, of d "[]" ?s1] p
  have q: "\<forall>en \<in> set (storedEntries fe'). device_id en = d
        \<and> (parsedTime y (message en) = None
              \<longrightarrow> (\<exists>n. log_timestamp en = isoOfTime (clock e n)))"
    by (auto simp: storedEntries_def)
  have q': "\<forall>en \<in> set (storedEntries fe'). device_id en = d
        \<and> (fst (getTimestampFromLog e (message en) 0 s) = Inr None
              \<longrightarrow> (\<exists>n. log_timestamp en = isoOfTime (clock e n)))"
    using q null_parsedTime [OF assms(1-3)] by blast
  have "files s2 = files ?s1" using processLines_files [of e d ls "([], [])" ?s1] p by simp
  then have c2: "incomingChunks s2 = incomingChunks s"
    using incomingChunks_files [of s2 ?s1] incomingChunks_files [OF trackRequest_files, of e s]
    by simp
  have r: "processLogContentLineByLine e d logContent s
      = (Inr \<lparr>success = True, linesProcessed = length ls, filesWritten = length fe'\<rparr>,
         writeEntries fe' s2)"
    using ls False p by (simp add: processLogContentLineByLine_def Let_def)
  have w: "mset (incomingChunks (writeEntries fe' s2))
      = mset (incomingChunks s) + mset (map EntryLine (storedEntries fe'))"
    by (simp only: writeEntries_chunks c2)
  have "processLogContentLineByLine e d logContent s
        = (Inr \<lparr>success = True, linesProcessed = length ls, filesWritten = length fe'\<rparr>,
           writeEntries fe' s2)
      \<and> success \<lparr>success = True, linesProcessed = length ls, filesWritten = length fe'\<rparr>
          = (ls \<noteq> [])
      \<and> linesProcessed \<lparr>success = True, linesProcessed = length ls, filesWritten = length fe'\<rparr>
          = length ls
      \<and> mset (incomingChunks (writeEntries fe' s2))
          = mset (incomingChunks s) + mset (map EntryLine (storedEntries fe'))
      \<and> mset (map message (storedEntries fe')) = mset ls
      \<and> (\<forall>en \<in> set (storedEntries fe'). device_id en = d
            \<and> (fst (getTimestampFromLog e (message en) 0 s) = Inr None
                  \<longrightarrow> (\<exists>n. log_timestamp en = isoOfTime (clock e n))))"
    using r w m q' False by simp
  then show ?thesis by blast
qed

subsection \<open>Where the entry of a line is stored\<close>








subsection \<open>Hour keys and hours\<close>











subsection \<open>Hints of 1000 and more\<close>



section \<open>The timestamp of one line\<close>

text \<open>
  C2, as stated, fails for a sequence hint of 1000: \<open>setUTCMilliseconds(1000)\<close> carries into
  the seconds, so the line stamped 12:53:01 in the source zone comes out as 05:53:02.000 UTC
  and the millisecond field of the result is 0, not the hint.
\<close>

theorem getTimestampFromLog_hint_1000_counterexample:
  "fst (getTimestampFromLog exampleEnv ''Sep 04 12:53:01 unit-a boot'' 1000 emptyState)
     = Inr (Some ''2025-09-04T05:53:02.000Z'')
   \<and> getUTCMilliseconds (Date_parse ''2025-09-04T05:53:02.000Z'') \<noteq> Some 1000"
  by code_simp

text \<open>
  C2, amended. For a line with a recognised prefix and month, in a calendar year from 1970 to
  9999, and a sequence hint \<open>h\<close> below 1000, \<open>getTimestampFromLog\<close> returns the ISO string of
  the instant \<open>t\<close> obtained by reading the parsed month, day and time with the current year as
  UTC, subtracting seven hours and adding \<open>h\<close> milliseconds. Reading the string back gives
  \<open>t\<close>, and its millisecond field is \<open>h\<close>.
\<close>

theorem getTimestampFromLog_utc7_hint:
  assumes "matchStamp isAlpha line = Some (monthStr, ws1, dayStr, ws2, timeStr)"
    and "months monthStr = Some monthIndex"
    and "YearFromTime (LocalTime e (clock e (ticks s))) = year"
    and "1970 \<le> year" and "year \<le> 9999"
    and "h < 1000"
    and "t = MakeDate (MakeDay year monthIndex (int (digitsVal dayStr)))
               (MakeTime (int (digitsVal (take 2 timeStr)))
                  (int (digitsVal (take 2 (drop 3 timeStr))))
                  (int (digitsVal (take 2 (drop 6 timeStr)))) 0)
             - 7 * msPerHour + int h"
  shows "getTimestampFromLog e line h s = (Inr (Some (isoOfTime t)), s\<lparr>ticks := Suc (ticks s)\<rparr>)
    \<and> Date_parse (isoOfTime t) = Some t
    \<and> getUTCMilliseconds (Date_parse (isoOfTime t)) = Some (int h)"
proof -
  define b where "b = t - int h"
  have pt: "parsedTime year line = Some b"
    using assms(1,2,7) by (simp add: parsedTime_def b_def)
  have t: "t = b + int h" by (simp add: b_def)
  have hb: "int h \<le> 8000000000000000" using assms(6) by simp
  have 1: "getTimestampFromLog e line h s
      = (Inr (Some (isoOfTime t)), s\<lparr>ticks := Suc (ticks s)\<rparr>)"
    using getTimestampFromLog_eq [OF assms(3,4,5) hb, of line] pt by (simp add: t)
  have v: "\<bar>t\<bar> \<le> 8640000000000000"
    unfolding t by (rule getTimestampFromLog_valid [OF pt assms(4,5) hb])
  have 2: "Date_parse (isoOfTime t) = Some t" by (rule Date_parse_isoOfTime [OF v])
  have "msFromTime b = 0" using parsedTime_Some(2) [OF pt assms(4,5)] .
  then have "b mod 1000 = 0" by (simp add: msFromTime_def)
  then have "(b + int h) mod 1000 = int h mod 1000"
    using mod_add_left_eq [of b 1000 "int h"] by simp
  then have 3: "msFromTime t = int h" using assms(6) by (simp add: msFromTime_def t)
  show ?thesis using 1 2 3 by (simp add: getUTCMilliseconds_def)
qed

text \<open>C2, amended: an instance, the line \<open>Sep 04 12:53:01 unit-a boot\<close> in 2025 with hint 7.\<close>

theorem getTimestampFromLog_utc7_hint_witness:
  "matchStamp isAlpha ''Sep 04 12:53:01 unit-a boot''
     = Some (''Sep'', '' '', ''04'', '' '', ''12:53:01'')
   \<and> months ''Sep'' = Some 8
   \<and> YearFromTime (LocalTime exampleEnv (clock exampleEnv (ticks emptyState))) = 2025
   \<and> (1970::int) \<le> 2025 \<and> (2025::int) \<le> 9999 \<and> (7::nat) < 1000
   \<and> getTimestampFromLog exampleEnv ''Sep 04 12:53:01 unit-a boot'' 7 emptyState
       = (Inr (Some (isoOfTime 1756965181007)), emptyState\<lparr>ticks := Suc (ticks emptyState)\<rparr>)
   \<and> Date_parse (isoOfTime 1756965181007) = Some 1756965181007
   \<and> getUTCMilliseconds (Date_parse (isoOfTime 1756965181007)) = Some (int 7)"
proof -
  have m: "matchStamp isAlpha ''Sep 04 12:53:01 unit-a boot''
     = Some (''Sep'', '' '', ''04'', '' '', ''12:53:01'')" by code_simp
  have mo: "months ''Sep'' = Some 8" by code_simp
  have y: "YearFromTime (LocalTime exampleEnv (clock exampleEnv (ticks emptyState))) = 2025"
    by code_simp
  have t: "(1756965181007::int) = MakeDate (MakeDay 2025 8 (int (digitsVal ''04'')))
               (MakeTime (int (digitsVal (take 2 ''12:53:01'')))
                  (int (digitsVal (take 2 (drop 3 ''12:53:01''))))
                  (int (digitsVal (take 2 (drop 6 ''12:53:01'')))) 0)
             - 7 * msPerHour + int 7"
    by code_simp
  have a: "(1970::int) \<le> 2025" "(2025::int) \<le> 9999" "(7::nat) < 1000" by simp_all
  show ?thesis
    using getTimestampFromLog_utc7_hint [OF m mo y a t] m mo y a by blast
qed



section \<open>Sequence hints within one submission\<close>

text \<open>
  C1, as stated, fails for a submission of 1001 lines that share one second: the last line
  gets the hint 1000, and the timestamp stored for it lies in the next second with the
  millisecond field 0, not 1000.
\<close>

theorem thousand_and_one_lines_counterexample:
  "entryAt (snd (processLogContentLineByLine exampleEnv ''dev''
       (concat (replicate 1001 (''Sep 04 12:53:01 unit-a boot'' @ [CHR 0x0A]))) emptyState))
     (Incoming, ''2025-09-04-05.log'') 1000
   = Some \<lparr>device_id = ''dev'', log_timestamp = ''2025-09-04T05:53:02.000Z'',
           message = ''Sep 04 12:53:01 unit-a boot''\<rparr>
   \<and> getUTCMilliseconds (Date_parse ''2025-09-04T05:53:02.000Z'') \<noteq> Some 1000"
proof -
  let ?L = "''Sep 04 12:53:01 unit-a boot''"
  let ?ls = "replicate 1001 ?L"
  let ?b = "1756965181000 :: int"
  let ?xs = "map (stampedEntry exampleEnv ''dev'' ?b) (enumerate 0 ?ls)"
  let ?s1 = "trackRequest exampleEnv emptyState"
  let ?s2 = "?s1\<lparr>ticks := ticks ?s1 + 2 * length ?ls\<rparr>"
  have a: "(1970::int) \<le> 2025" "(2025::int) \<le> 9999" by simp_all
  have nl: "CHR 0x0A \<notin> set ?L" by simp
  have sp: "filter (\<lambda>line. length line > 0) (splitLines (concat (replicate 1001 (?L @ [CHR 0x0A]))))
      = ?ls"
    by (rule splitLines_replicate [OF nl]) simp
  have ne: "?ls \<noteq> []" by simp
  have p1: "parsedTime 2025 ?L = Some ?b" by code_simp
  have p: "\<forall>l \<in> set ?ls. parsedTime 2025 l = Some ?b" using p1 by simp
  have n: "int (length ?ls) \<le> 8000000000000000" by simp
  have run: "processLogContentLineByLine exampleEnv ''dev''
       (concat (replicate 1001 (?L @ [CHR 0x0A]))) emptyState
     = (Inr \<lparr>success = True, linesProcessed = length ?ls,
              filesWritten = length (groupEntries ?xs [])\<rparr>,
        writeEntries (groupEntries ?xs []) ?s2)"
    by (rule processLog_same_second [OF exampleEnv_clockInYear a sp ne p n refl refl])
  have names: "\<forall>x \<in> set ?xs. fst x = ''2025-09-04-05.log''"
  proof
    fix x assume "x \<in> set ?xs"
    then obtain i l where il: "(i, l) \<in> set (enumerate 0 ?ls)"
      and x: "x = stampedEntry exampleEnv ''dev'' ?b (i, l)" by auto
    from il have "i < 1001" by (simp add: in_set_enumerate_eq)
    then have "getHourKey exampleEnv (Some (?b + int i)) = ''2025-09-04-05''"
      by (intro hourKey_example) simp_all
    then show "fst x = ''2025-09-04-05.log''" by (simp add: x stampedEntry_def)
  qed
  have len: "length ?xs = 1001" by simp
  have ne2: "?xs \<noteq> []"
  proof
    assume "?xs = []"
    then have "length ?xs = 0" by (simp only: list.size)
    with len show False by simp
  qed
  have g: "groupEntries ?xs [] = [(''2025-09-04-05.log'', map snd ?xs)]"
    by (rule groupEntries_single [OF names ne2])
  have f0: "files ?s2 = []" by (simp add: trackRequest_files emptyState_def)
  have w: "files (writeEntries (groupEntries ?xs []) ?s2)
      = [((Incoming, ''2025-09-04-05.log''), map EntryLine (map snd ?xs))]"
    unfolding g by (simp add: fs_appendFile_def trackRequest_files emptyState_def)
  have "?xs ! 1000 = stampedEntry exampleEnv ''dev'' ?b (1000, ?L)"
    by (simp add: nth_enumerate_eq)
  moreover have "isoOfTime (?b + int 1000) = ''2025-09-04T05:53:02.000Z''" by code_simp
  ultimately have e: "snd (?xs ! 1000)
      = \<lparr>device_id = ''dev'', log_timestamp = ''2025-09-04T05:53:02.000Z'', message = ?L\<rparr>"
    by (simp add: stampedEntry_def)
  have "entryAt (writeEntries (groupEntries ?xs []) ?s2) (Incoming, ''2025-09-04-05.log'') 1000
      = Some (snd (?xs ! 1000))"
    unfolding entryAt_def w using len by simp
  then have 1: "entryAt (snd (processLogContentLineByLine exampleEnv ''dev''
       (concat (replicate 1001 (?L @ [CHR 0x0A]))) emptyState))
     (Incoming, ''2025-09-04-05.log'') 1000
   = Some \<lparr>device_id = ''dev'', log_timestamp = ''2025-09-04T05:53:02.000Z'', message = ?L\<rparr>"
    unfolding run e by simp
  have 2: "getUTCMilliseconds (Date_parse ''2025-09-04T05:53:02.000Z'') \<noteq> Some 1000"
    by code_simp
  show ?thesis using 1 2 by blast
qed

text \<open>
  C1, amended. Let the non-empty lines \<open>ls\<close> of one submission all denote the base second
  \<open>b\<close>, in a calendar year from 1970 to 9999. Then \<open>processLogContentLineByLine\<close> succeeds,
  and what it appends to the bucket files are the entries of the lines in input order, the
  line at position \<open>i\<close> (from 0) stamped with the instant \<open>b + i\<close> ms: the hints are
  \<open>0, 1, \<dots>, N - 1\<close> in input order. For the positions below 1000 the millisecond field
  of the stored timestamp is the hint.
\<close>

theorem same_second_hints_in_order:
  assumes "clockInYear e y" and "1970 \<le> y" and "y \<le> 9999"
    and "filter (\<lambda>line. length line > 0) (splitLines logContent) = ls" and "ls \<noteq> []"
    and "\<forall>l \<in> set ls. parsedTime y l = Some b"
    and "int (length ls) \<le> 8000000000000000"
    and "fe = groupEntries (map (stampedEntry e d b) (enumerate 0 ls)) []"
    and "s1 = trackRequest e s"
  shows "processLogContentLineByLine e d logContent s =
      (Inr \<lparr>success = True, linesProcessed = length ls, filesWritten = length fe\<rparr>,
       writeEntries fe (s1\<lparr>ticks := ticks s1 + 2 * length ls\<rparr>))
    \<and> (\<forall>i < length ls. i < 1000 \<longrightarrow>
          getUTCMilliseconds (Date_parse (log_timestamp (snd (stampedEntry e d b (i, ls ! i)))))
            = Some (int i))"
  using processLog_same_second [OF assms] hint_ms_fields [OF assms(2,3,6)] by blast

text \<open>C1, amended: an instance, the two lines \<open>boot\<close> and \<open>ready\<close> of 12:53:01.\<close>

theorem same_second_hints_in_order_witness:
  "clockInYear exampleEnv 2025 \<and> (1970::int) \<le> 2025 \<and> (2025::int) \<le> 9999
   \<and> filter (\<lambda>line. length line > 0)
        (splitLines (''Sep 04 12:53:01 unit-a boot'' @ [CHR 0x0A] @ ''Sep 04 12:53:01 unit-a ready''))
      = [''Sep 04 12:53:01 unit-a boot'', ''Sep 04 12:53:01 unit-a ready'']
   \<and> [''Sep 04 12:53:01 unit-a boot'', ''Sep 04 12:53:01 unit-a ready''] \<noteq> []
   \<and> parsedTime 2025 ''Sep 04 12:53:01 unit-a boot'' = Some 1756965181000
   \<and> parsedTime 2025 ''Sep 04 12:53:01 unit-a ready'' = Some 1756965181000
   \<and> processLogContentLineByLine exampleEnv ''dev''
        (''Sep 04 12:53:01 unit-a boot'' @ [CHR 0x0A] @ ''Sep 04 12:53:01 unit-a ready'') emptyState =
      (Inr \<lparr>success = True,
            linesProcessed = length [''Sep 04 12:53:01 unit-a boot'', ''Sep 04 12:53:01 unit-a ready''],
            filesWritten =
              length (groupEntries (map (stampedEntry exampleEnv ''dev'' 1756965181000)
                (enumerate 0 [''Sep 04 12:53:01 unit-a boot'', ''Sep 04 12:53:01 unit-a ready''])) [])\<rparr>,
       writeEntries
         (groupEntries (map (stampedEntry exampleEnv ''dev'' 1756965181000)
            (enumerate 0 [''Sep 04 12:53:01 unit-a boot'', ''Sep 04 12:53:01 unit-a ready''])) [])
         ((trackRequest exampleEnv emptyState)
            \<lparr>ticks := ticks (trackRequest exampleEnv emptyState)
               + 2 * length [''Sep 04 12:53:01 unit-a boot'', ''Sep 04 12:53:01 unit-a ready'']\<rparr>))
   \<and> getUTCMilliseconds (Date_parse (log_timestamp (snd
          (stampedEntry exampleEnv ''dev'' 1756965181000 (1, ''Sep 04 12:53:01 unit-a ready'')))))
        = Some (int 1)"
proof -
  have a: "(1970::int) \<le> 2025" "(2025::int) \<le> 9999" by simp_all
  have sp: "filter (\<lambda>line. length line > 0)
        (splitLines (''Sep 04 12:53:01 unit-a boot'' @ [CHR 0x0A] @ ''Sep 04 12:53:01 unit-a ready''))
      = [''Sep 04 12:53:01 unit-a boot'', ''Sep 04 12:53:01 unit-a ready'']" by code_simp
  have ne: "[''Sep 04 12:53:01 unit-a boot'', ''Sep 04 12:53:01 unit-a ready''] \<noteq> []" by simp
  have p1: "parsedTime 2025 ''Sep 04 12:53:01 unit-a boot'' = Some 1756965181000" by code_simp
  have p2: "parsedTime 2025 ''Sep 04 12:53:01 unit-a ready'' = Some 1756965181000" by code_simp
  have p: "\<forall>l \<in> set [''Sep 04 12:53:01 unit-a boot'', ''Sep 04 12:53:01 unit-a ready''].
         parsedTime 2025 l = Some 1756965181000" using p1 p2 by simp
  have n: "int (length [''Sep 04 12:53:01 unit-a boot'', ''Sep 04 12:53:01 unit-a ready''])
      \<le> 8000000000000000" by simp
  note t = same_second_hints_in_order [OF exampleEnv_clockInYear a sp ne p n refl refl,
      of "''dev''" emptyState]
  from t have "\<forall>i < length [''Sep 04 12:53:01 unit-a boot'', ''Sep 04 12:53:01 unit-a ready''].
      i < 1000 \<longrightarrow>
          getUTCMilliseconds (Date_parse (log_timestamp (snd (stampedEntry exampleEnv ''dev''
             1756965181000
             (i, [''Sep 04 12:53:01 unit-a boot'', ''Sep 04 12:53:01 unit-a ready''] ! i)))))
            = Some (int i)" by blast
  from this [rule_format, of 1]
  have m: "getUTCMilliseconds (Date_parse (log_timestamp (snd
          (stampedEntry exampleEnv ''dev'' 1756965181000 (1, ''Sep 04 12:53:01 unit-a ready'')))))
        = Some (int 1)" by simp
  show ?thesis
    using t exampleEnv_clockInYear a sp ne p1 p2 m by blast
qed

section \<open>The bucket of an entry\<close>

text \<open>
  C6, as stated, fails for a line without a recognised timestamp: such a line is accepted, its
  entry is stamped with the time of the clock, and the bucket is the hour of that time. The
  same line received one hour later goes to the next bucket.
\<close>

theorem bucket_key_no_timestamp_counterexample:
  "fst (lineStep exampleEnv ''dev'' ''no timestamp here'' ([], []) emptyState)
     = Inr ([], [(''2025-09-04-12.log'',
                  [\<lparr>device_id = ''dev'', log_timestamp = ''2025-09-04T12:46:40.000Z'',
                    message = ''no timestamp here''\<rparr>])])
   \<and> fst (lineStep laterEnv ''dev'' ''no timestamp here'' ([], []) emptyState)
     = Inr ([], [(''2025-09-04-13.log'',
                  [\<lparr>device_id = ''dev'', log_timestamp = ''2025-09-04T13:46:40.000Z'',
                    message = ''no timestamp here''\<rparr>])])"
  by code_simp

text \<open>
  C6, amended. In a calendar year from 1970 to 9999: for a line that denotes a base second
  \<open>b\<close>, the entry goes to the bucket of the local hour of its event time \<open>b + hint\<close>, and a
  run with any other clock of the same year and the same time zone gives the same counters and
  the same bucket; for a line with no recognised timestamp, the entry goes to the bucket of
  the local hour of the clock reading that also becomes its timestamp.
\<close>

theorem bucket_key_of_line:
  assumes "clockInYear e y" and "1970 \<le> y" and "y \<le> 9999"
    and "\<forall>k. int (counterGet cs k) \<le> 8000000000000000"
  shows "(\<forall>b. parsedTime y line = Some b \<longrightarrow>
            lineStep e d line (cs, fe) s =
              (Inr (AList.update (take 19 (isoOfTime b) @ ''Z'')
                      (counterGet cs (take 19 (isoOfTime b) @ ''Z'') + 1) cs,
                    addEntry
                      (getHourKey e
                         (Some (b + int (counterGet cs (take 19 (isoOfTime b) @ ''Z''))))
                       @ ''.log'')
                      \<lparr>device_id = d,
                       log_timestamp =
                         isoOfTime (b + int (counterGet cs (take 19 (isoOfTime b) @ ''Z''))),
                       message = line\<rparr> fe),
               s\<lparr>ticks := ticks s + 2\<rparr>)
            \<and> (\<forall>e' s'. clockInYear e' y \<and> localTZA e' = localTZA e \<longrightarrow>
                  fst (lineStep e' d line (cs, fe) s') = fst (lineStep e d line (cs, fe) s)))
    \<and> (parsedTime y line = None \<longrightarrow>
          lineStep e d line (cs, fe) s =
            (Inr (cs, addEntry (getHourKey e (Some (clock e (ticks s))) @ ''.log'')
                        \<lparr>device_id = d, log_timestamp = isoOfTime (clock e (ticks s)),
                         message = line\<rparr> fe),
             s\<lparr>ticks := Suc (ticks s)\<rparr>))"
proof -
  have h: "int (counterGet cs k) \<le> 8000000000000000" for k using assms(4) by blast
  have 1: "lineStep e' d line (cs, fe) s' =
      (Inr (AList.update (take 19 (isoOfTime b) @ ''Z'')
                      (counterGet cs (take 19 (isoOfTime b) @ ''Z'') + 1) cs,
                    addEntry
                      (getHourKey e'
                         (Some (b + int (counterGet cs (take 19 (isoOfTime b) @ ''Z''))))
                       @ ''.log'')
                      \<lparr>device_id = d,
                       log_timestamp =
                         isoOfTime (b + int (counterGet cs (take 19 (isoOfTime b) @ ''Z''))),
                       message = line\<rparr> fe),
               s'\<lparr>ticks := ticks s' + 2\<rparr>)"
    if "parsedTime y line = Some b" "clockInYear e' y" for e' s' b
    using lineStep_eq [OF that(2) assms(2,3) h, of d line fe s'] that(1) by simp
  have 2: "fst (lineStep e' d line (cs, fe) s') = fst (lineStep e d line (cs, fe) s)"
    if "parsedTime y line = Some b" "clockInYear e' y" "localTZA e' = localTZA e" for e' s' b
    unfolding 1 [OF that(1,2)] 1 [OF that(1) assms(1)] using getHourKey_cong [OF that(3)]
    by simp
  have 3: "parsedTime y line = None \<Longrightarrow>
          lineStep e d line (cs, fe) s =
            (Inr (cs, addEntry (getHourKey e (Some (clock e (ticks s))) @ ''.log'')
                        \<lparr>device_id = d, log_timestamp = isoOfTime (clock e (ticks s)),
                         message = line\<rparr> fe),
             s\<lparr>ticks := Suc (ticks s)\<rparr>)"
    using lineStep_eq [OF assms(1,2,3) h, of d line fe s] by simp
  show ?thesis using 1 [OF _ assms(1)] 2 3 by blast
qed

text \<open>C6, amended: an instance, the line \<open>Sep 04 12:53:01 unit-a boot\<close> in 2025.\<close>

theorem bucket_key_of_line_witness:
  "clockInYear exampleEnv 2025 \<and> (1970::int) \<le> 2025 \<and> (2025::int) \<le> 9999
   \<and> (\<forall>k. int (counterGet [] k) \<le> 8000000000000000)
   \<and> parsedTime 2025 ''Sep 04 12:53:01 unit-a boot'' = Some 1756965181000
   \<and> lineStep exampleEnv ''dev'' ''Sep 04 12:53:01 unit-a boot'' ([], []) emptyState =
        (Inr (AList.update (take 19 (isoOfTime 1756965181000) @ ''Z'')
                (counterGet [] (take 19 (isoOfTime 1756965181000) @ ''Z'') + 1) [],
              addEntry
                (getHourKey exampleEnv
                   (Some (1756965181000
                          + int (counterGet [] (take 19 (isoOfTime 1756965181000) @ ''Z''))))
                 @ ''.log'')
                \<lparr>device_id = ''dev'',
                 log_timestamp =
                   isoOfTime (1756965181000
                              + int (counterGet [] (take 19 (isoOfTime 1756965181000) @ ''Z''))),
                 message = ''Sep 04 12:53:01 unit-a boot''\<rparr> []),
         emptyState\<lparr>ticks := ticks emptyState + 2\<rparr>)"
proof -
  have a: "(1970::int) \<le> 2025" "(2025::int) \<le> 9999" by simp_all
  have b: "\<forall>k. int (counterGet [] k) \<le> 8000000000000000" by simp
  have p: "parsedTime 2025 ''Sep 04 12:53:01 unit-a boot'' = Some 1756965181000" by code_simp
  show ?thesis
    using bucket_key_of_line [OF exampleEnv_clockInYear a b,
        of "''Sep 04 12:53:01 unit-a boot''" "''dev''" "[]" emptyState]
      exampleEnv_clockInYear a b p by blast
qed

section \<open>Counters within one second key\<close>

text \<open>
  C7, as stated, fails for the process-lifetime variant. Its counter starts at 1, not 0; and
  when the stamp of the line is more than an hour older than the clock, the key is pruned in
  the same call that set it, so the next line of the same second gets the counter 1 again.
\<close>

theorem legacy_counter_reuse_counterexample:
  "parseAndEnhanceTimestamp staleLegacyEnv ''Sep 04 12:53:01 unit-a boot'' emptyState
     = (Inr \<lparr>baseTimestamp = 1756990381000, enhancedTimestamp = ''2025-09-04T12:53:01.001Z'',
             hourKey = ''2025-09-04-12''\<rparr>,
        emptyState\<lparr>ticks := 2\<rparr>)
   \<and> parseAndEnhanceTimestamp staleLegacyEnv ''Sep 04 12:53:01 unit-a ready''
       (emptyState\<lparr>ticks := 2\<rparr>)
     = (Inr \<lparr>baseTimestamp = 1756990381000, enhancedTimestamp = ''2025-09-04T12:53:01.001Z'',
             hourKey = ''2025-09-04-12''\<rparr>,
        emptyState\<lparr>ticks := 4\<rparr>)"
  by code_simp

text \<open>
  C7, amended. Per batch: after the loop has processed the lines \<open>ls\<close> of a call, a further
  line of the call gets as its hint the number of lines of \<open>ls\<close> with the same second key,
  so within one key the hints are 0, 1, 2, \<dots> in the order of the lines. Process lifetime:
  the counter of a line is one more than the count stored for its key, so it starts at 1, and
  when the key is not older than the pruning cutoff the stored count becomes that counter, so
  that the counters of one key go up by one from line to line.
\<close>

theorem counters_within_one_second_key:
  assumes "clockInYear e y" and "1970 \<le> y" and "y \<le> 9999"
    and "int (length ls) \<le> 8000000000000000"
    and "processLines e d ls ([], []) s = (Inr (cs, fe), s1)"
    and "parsedTime y l = Some b"
    and "matchStamp isWord msg = Some (mon, ws1, day, ws2, tm)"
    and "legacyParse e' (mon @ ws1 @ day @ ws2 @ tm @ '' ''
              @ String_num (getFullYear e' (Some (clock e' (ticks s'))))) = Some base"
    and "key = formatTimestampKey base"
    and "counter = counterGet (timestampCounters s') key + 1"
    and "\<bar>base\<bar> \<le> 8640000000000000" and "\<bar>base + int counter\<bar> \<le> 8640000000000000"
    and "\<not> strLess key (formatTimestampKey (clock e' (Suc (ticks s')) - 60 * 60 * 1000))"
  shows "resolveTimestamp e l cs s1 =
      (Inr (isoOfTime (b + int (length (filter (\<lambda>x. lineKey y x = lineKey y l) ls))),
            AList.update (take 19 (isoOfTime b) @ ''Z'')
              (length (filter (\<lambda>x. lineKey y x = lineKey y l) ls) + 1) cs),
       s1\<lparr>ticks := ticks s1 + 2\<rparr>)
    \<and> fst (parseAndEnhanceTimestamp e' msg s') =
      Inr \<lparr>baseTimestamp = base, enhancedTimestamp = isoOfTime (base + int counter),
           hourKey = getHourKey e' (Some base)\<rparr>
    \<and> counterGet (timestampCounters (snd (parseAndEnhanceTimestamp e' msg s'))) key = counter"
  using batch_next_hint [OF assms(1-6)] legacy_counter_step [OF assms(7-13)] by blast

text \<open>C7, amended: an instance, a second line of 12:53:01 after a first one, and the first
  line of that second on the legacy path.\<close>

theorem counters_within_one_second_key_witness:
  "clockInYear exampleEnv 2025 \<and> (1970::int) \<le> 2025 \<and> (2025::int) \<le> 9999
   \<and> int (length [''Sep 04 12:53:01 unit-a boot'']) \<le> 8000000000000000
   \<and> processLines exampleEnv ''dev'' [''Sep 04 12:53:01 unit-a boot''] ([], []) emptyState
       = (Inr ([(''2025-09-04T05:53:01Z'', 1)],
               [(''2025-09-04-05.log'',
                 [\<lparr>device_id = ''dev'', log_timestamp = ''2025-09-04T05:53:01.000Z'',
                   message = ''Sep 04 12:53:01 unit-a boot''\<rparr>])]),
          emptyState\<lparr>ticks := 2\<rparr>)
   \<and> parsedTime 2025 ''Sep 04 12:53:01 unit-a ready'' = Some 1756965181000
   \<and> matchStamp isWord ''Sep 04 12:53:01 unit-a boot''
       = Some (''Sep'', '' '', ''04'', '' '', ''12:53:01'')
   \<and> legacyParse legacyEnv (''Sep'' @ '' '' @ ''04'' @ '' '' @ ''12:53:01'' @ '' ''
         @ String_num (getFullYear legacyEnv (Some (clock legacyEnv (ticks emptyState)))))
       = Some 1756990381000
   \<and> \<not> strLess (formatTimestampKey 1756990381000)
         (formatTimestampKey (clock legacyEnv (Suc (ticks emptyState)) - 60 * 60 * 1000))
   \<and> resolveTimestamp exampleEnv ''Sep 04 12:53:01 unit-a ready''
         [(''2025-09-04T05:53:01Z'', 1)] (emptyState\<lparr>ticks := 2\<rparr>)
       = (Inr (isoOfTime (1756965181000
                 + int (length (filter (\<lambda>x. lineKey 2025 x
                                         = lineKey 2025 ''Sep 04 12:53:01 unit-a ready'')
                          [''Sep 04 12:53:01 unit-a boot'']))),
               AList.update (take 19 (isoOfTime 1756965181000) @ ''Z'')
                 (length (filter (\<lambda>x. lineKey 2025 x
                                     = lineKey 2025 ''Sep 04 12:53:01 unit-a ready'')
                      [''Sep 04 12:53:01 unit-a boot'']) + 1)
                 [(''2025-09-04T05:53:01Z'', 1)]),
          emptyState\<lparr>ticks := 2\<rparr>\<lparr>ticks := ticks (emptyState\<lparr>ticks := 2\<rparr>) + 2\<rparr>)
   \<and> fst (parseAndEnhanceTimestamp legacyEnv ''Sep 04 12:53:01 unit-a boot'' emptyState)
       = Inr \<lparr>baseTimestamp = 1756990381000,
              enhancedTimestamp =
                isoOfTime (1756990381000
                  + int (counterGet (timestampCounters emptyState)
                           (formatTimestampKey 1756990381000) + 1)),
              hourKey = getHourKey legacyEnv (Some 1756990381000)\<rparr>
   \<and> counterGet
        (timestampCounters
           (snd (parseAndEnhanceTimestamp legacyEnv ''Sep 04 12:53:01 unit-a boot'' emptyState)))
        (formatTimestampKey 1756990381000)
       = counterGet (timestampCounters emptyState) (formatTimestampKey 1756990381000) + 1"
proof -
  have a: "(1970::int) \<le> 2025" "(2025::int) \<le> 9999"
    "int (length [''Sep 04 12:53:01 unit-a boot'']) \<le> 8000000000000000" by simp_all
  have r: "processLines exampleEnv ''dev'' [''Sep 04 12:53:01 unit-a boot''] ([], []) emptyState
       = (Inr ([(''2025-09-04T05:53:01Z'', 1)],
               [(''2025-09-04-05.log'',
                 [\<lparr>device_id = ''dev'', log_timestamp = ''2025-09-04T05:53:01.000Z'',
                   message = ''Sep 04 12:53:01 unit-a boot''\<rparr>])]),
          emptyState\<lparr>ticks := 2\<rparr>)" by code_simp
  have p: "parsedTime 2025 ''Sep 04 12:53:01 unit-a ready'' = Some 1756965181000" by code_simp
  have m: "matchStamp isWord ''Sep 04 12:53:01 unit-a boot''
       = Some (''Sep'', '' '', ''04'', '' '', ''12:53:01'')" by code_simp
  have lp: "legacyParse legacyEnv (''Sep'' @ '' '' @ ''04'' @ '' '' @ ''12:53:01'' @ '' ''
         @ String_num (getFullYear legacyEnv (Some (clock legacyEnv (ticks emptyState)))))
       = Some 1756990381000" by code_simp
  have v: "\<bar>1756990381000 :: int\<bar> \<le> 8640000000000000"
    "\<bar>1756990381000 + int (counterGet (timestampCounters emptyState)
                           (formatTimestampKey 1756990381000) + 1)\<bar> \<le> 8640000000000000"
    by (simp_all add: emptyState_def)
  have np: "\<not> strLess (formatTimestampKey 1756990381000)
         (formatTimestampKey (clock legacyEnv (Suc (ticks emptyState)) - 60 * 60 * 1000))"
    by code_simp
  show ?thesis
    using counters_within_one_second_key [OF exampleEnv_clockInYear a r p m lp refl refl v np]
      exampleEnv_clockInYear a r p m lp np by blast
qed

section \<open>Lines without a timestamp\<close>

text \<open>
  C8. \<open>getTimestampFromLog\<close> returns \<open>null\<close> exactly when the line has no prefix of the form
  month, white space, one or two digits, white space, \<open>HH:MM:SS\<close>, or has one whose three
  letters are not among the twelve month abbreviations. For a line with that outcome the
  caller takes the current reading of the clock as the timestamp. In a calendar year from 1970
  to 9999, \<open>processLogContentLineByLine\<close> does not throw; it reports the number of non-empty
  lines \<open>ls\<close> of the submission, and what it adds to the files of the incoming area are entries
  whose messages are the lines of \<open>ls\<close>, each as often as it occurs: one entry per non-empty
  line. Every one of these entries carries the device id, and the entry of a line without a
  timestamp is stamped with a reading of the clock.
\<close>

theorem parse_error_outcome:
  assumes "clockInYear e y" and "1970 \<le> y" and "y \<le> 9999"
    and "filter (\<lambda>line. length line > 0) (splitLines logContent) = ls"
    and "int (length ls) \<le> 8000000000000000"
  shows "(fst (getTimestampFromLog e line h s) = Inr None \<longleftrightarrow>
            (\<forall>mon ws1 day ws2 tm. \<not> stampPrefix isAlpha line mon ws1 day ws2 tm)
            \<or> (\<exists>mon ws1 day ws2 tm. stampPrefix isAlpha line mon ws1 day ws2 tm
                  \<and> mon \<notin> set [''Jan'', ''Feb'', ''Mar'', ''Apr'', ''May'', ''Jun'',
                                   ''Jul'', ''Aug'', ''Sep'', ''Oct'', ''Nov'', ''Dec'']))
    \<and> (fst (getTimestampFromLog e line 0 s) = Inr None \<longrightarrow>
          resolveTimestamp e line cs s
            = (Inr (isoOfTime (clock e (ticks s)), cs), s\<lparr>ticks := Suc (ticks s)\<rparr>))
    \<and> (\<exists>r s' es. processLogContentLineByLine e d logContent s = (Inr r, s')
          \<and> success r = (ls \<noteq> []) \<and> linesProcessed r = length ls
          \<and> mset (incomingChunks s') = mset (incomingChunks s) + mset (map EntryLine es)
          \<and> mset (map message es) = mset ls
          \<and> (\<forall>en \<in> set es. device_id en = d
                \<and> (fst (getTimestampFromLog e (message en) 0 s) = Inr None
                      \<longrightarrow> (\<exists>n. log_timestamp en = isoOfTime (clock e n)))))"
  using null_iff_prefix [of e line h s] null_fallback [of e line s cs]
    every_line_has_entry [OF assms, of d s] by blast

text \<open>C8: an instance, a line without a timestamp followed by a line with one.\<close>

theorem parse_error_outcome_witness:
  "clockInYear exampleEnv 2025 \<and> (1970::int) \<le> 2025 \<and> (2025::int) \<le> 9999
   \<and> filter (\<lambda>line. length line > 0)
        (splitLines (''no timestamp here'' @ [CHR 0x0A] @ ''Sep 04 12:53:01 unit-a boot''))
      = [''no timestamp here'', ''Sep 04 12:53:01 unit-a boot'']
   \<and> int (length [''no timestamp here'', ''Sep 04 12:53:01 unit-a boot'']) \<le> 8000000000000000
   \<and> fst (getTimestampFromLog exampleEnv ''no timestamp here'' 0 emptyState) = Inr None
   \<and> resolveTimestamp exampleEnv ''no timestamp here'' [] emptyState
        = (Inr (isoOfTime (clock exampleEnv (ticks emptyState)), []),
           emptyState\<lparr>ticks := Suc (ticks emptyState)\<rparr>)
   \<and> (\<exists>r s' es.
         processLogContentLineByLine exampleEnv ''dev''
           (''no timestamp here'' @ [CHR 0x0A] @ ''Sep 04 12:53:01 unit-a boot'') emptyState
           = (Inr r, s')
         \<and> success r = ([''no timestamp here'', ''Sep 04 12:53:01 unit-a boot''] \<noteq> [])
         \<and> linesProcessed r = length [''no timestamp here'', ''Sep 04 12:53:01 unit-a boot'']
         \<and> mset (incomingChunks s')
             = mset (incomingChunks emptyState) + mset (map EntryLine es)
         \<and> mset (map message es)
             = mset [''no timestamp here'', ''Sep 04 12:53:01 unit-a boot''])"
proof -
  have a: "(1970::int) \<le> 2025" "(2025::int) \<le> 9999" by simp_all
  have sp: "filter (\<lambda>line. length line > 0)
        (splitLines (''no timestamp here'' @ [CHR 0x0A] @ ''Sep 04 12:53:01 unit-a boot''))
      = [''no timestamp here'', ''Sep 04 12:53:01 unit-a boot'']" by code_simp
  have n: "int (length [''no timestamp here'', ''Sep 04 12:53:01 unit-a boot''])
      \<le> 8000000000000000" by simp
  have z: "fst (getTimestampFromLog exampleEnv ''no timestamp here'' 0 emptyState) = Inr None"
    by code_simp
  show ?thesis
    using parse_error_outcome [OF exampleEnv_clockInYear a sp n, of "''no timestamp here''" 0
        emptyState "[]" "''dev''"]
      exampleEnv_clockInYear a sp n z by blast
qed

section \<open>Facts about the batch processor\<close>

subsection \<open>Uploads that are refused\<close>

lemma uploadAttempt_refused:
  assumes "\<forall>n. \<not> s3_accepts e n"
  shows "\<exists>err s'. uploadAttempt e p f s = (Inl err, s') \<and> files s' = files s
      \<and> s3_objects s' = s3_objects s \<and> sleeps s' = sleeps s \<and> ticks s' = ticks s
      \<and> (isBucketName f \<longrightarrow> s3_sends s' = Suc (s3_sends s))"
  using assms
  by (auto simp: uploadAttempt_def generateS3Key_def Let_def split: option.splits)

lemma uploadToS3_refused:
  "(\<forall>n. \<not> s3_accepts e n) \<Longrightarrow> retryCount \<le> 3 \<Longrightarrow>
    \<exists>err s'. uploadToS3 e p f retryCount s = (Inl err, s') \<and> files s' = files s
      \<and> s3_objects s' = s3_objects s \<and> ticks s' = ticks s
      \<and> sleeps s' = sleeps s @ map (\<lambda>k. 1000 * (k + 1)) [retryCount..<3]
      \<and> (isBucketName f \<longrightarrow> s3_sends s' = s3_sends s + (4 - retryCount))"
proof (induction e p f retryCount s rule: uploadToS3.induct)
  case (1 e p f retryCount s)
  from uploadAttempt_refused [OF "1.prems"(1), of p f s] obtain err s1 where
    a: "uploadAttempt e p f s = (Inl err, s1)" and f1: "files s1 = files s"
    and o1: "s3_objects s1 = s3_objects s" and sl1: "sleeps s1 = sleeps s"
    and t1: "ticks s1 = ticks s"
    and n1: "isBucketName f \<longrightarrow> s3_sends s1 = Suc (s3_sends s)"
    by blast
  show ?case
  proof (cases "retryCount < 3")
    case True
    let ?s2 = "s1\<lparr>sleeps := sleeps s1 @ [1000 * (retryCount + 1)]\<rparr>"
    have "retryCount < maxRetries" using True by (simp add: maxRetries_def)
    from "1.IH" [OF a [symmetric] refl this "1.prems"(1)] True obtain err' s' where
      r: "uploadToS3 e p f (retryCount + 1) ?s2 = (Inl err', s')" and f2: "files s' = files ?s2"
      and o2: "s3_objects s' = s3_objects ?s2" and t2: "ticks s' = ticks ?s2"
      and sl2: "sleeps s' = sleeps ?s2 @ map (\<lambda>k. 1000 * (k + 1)) [retryCount + 1..<3]"
      and n2: "isBucketName f \<longrightarrow> s3_sends s' = s3_sends ?s2 + (4 - (retryCount + 1))"
      by auto
    have u: "uploadToS3 e p f retryCount s = (Inl err', s')"
      using a r True by (subst uploadToS3.simps) (simp add: maxRetries_def)
    have "[retryCount..<3] = retryCount # [retryCount + 1..<3]"
      using True by (simp add: upt_rec)
    then have "sleeps s' = sleeps s @ map (\<lambda>k. 1000 * (k + 1)) [retryCount..<3]"
      using sl2 sl1 by simp
    moreover have "isBucketName f \<longrightarrow> s3_sends s' = s3_sends s + (4 - retryCount)"
      using n2 n1 True by auto
    ultimately show ?thesis using u f2 f1 o2 o1 t2 t1 by simp
  next
    case False
    then have rc: "retryCount = 3" using "1.prems"(2) by simp
    have u: "uploadToS3 e p f retryCount s = (Inl err, s1)"
      using a rc by (subst uploadToS3.simps) (simp add: maxRetries_def)
    show ?thesis using u f1 o1 sl1 t1 n1 rc by simp
  qed
qed

lemma map_of_files_update [simp]:
  "map_of (AList.update k v al) = (map_of al)(k \<mapsto> v)"
  by (rule update_conv')

lemma map_of_files_delete [simp]:
  "map_of (AList.delete k al) = (map_of al)(k := None)"
  by (rule delete_conv')

lemma processFile_refused:
  assumes ex: "map_of (files s) (Processing, f) = Some c"
    and fail: "\<forall>n. \<not> s3_accepts e n"
  shows "\<exists>err s'. processFile e f s = (Inl err, s')
      \<and> map_of (files s') = (map_of (files s))((Processing, f @ ''.gz'') := None)
      \<and> s3_objects s' = s3_objects s \<and> ticks s' = ticks s
      \<and> sleeps s' = sleeps s @ [1000, 2000, 3000]
      \<and> (isBucketName f \<longrightarrow> s3_sends s' = s3_sends s + 4)"
proof -
  let ?gz = "(Processing, f @ ''.gz'')"
  let ?s1 = "s\<lparr>files := AList.update ?gz [GzipOf c] (files s)\<rparr>"
  have cf: "compressFile (Processing, f) ?gz s = (Inr (), ?s1)"
    by (simp add: compressFile_def ex)
  from uploadToS3_refused [OF fail, of 0 ?gz f ?s1] obtain err s2 where
    u: "uploadToS3 e ?gz f 0 ?s1 = (Inl err, s2)" and f2: "files s2 = files ?s1"
    and o2: "s3_objects s2 = s3_objects ?s1" and t2: "ticks s2 = ticks ?s1"
    and sl2: "sleeps s2 = sleeps ?s1 @ map (\<lambda>k. 1000 * (k + 1)) [0..<3]"
    and n2: "isBucketName f \<longrightarrow> s3_sends s2 = s3_sends ?s1 + (4 - 0)"
    by auto
  have "[0..<3] = [0, 1, 2]" by (simp add: upt_rec)
  then have sl: "sleeps s2 = sleeps s @ [1000, 2000, 3000]" using sl2 by simp
  have g: "map_of (files s2) ?gz = Some [GzipOf c]" by (simp add: f2)
  have p: "processFile e f s = (Inl err, s2\<lparr>files := AList.delete ?gz (files s2)\<rparr>)"
    by (simp add: processFile_def Let_def cf u fs_unlink_def g)
  show ?thesis
    unfolding p using f2 o2 t2 sl n2 by (auto simp: fun_eq_iff)
qed

subsection \<open>Quarantine of a failed file\<close>

lemma moveFile_existing:
  assumes "map_of (files s) src = Some c"
  shows "moveFile src dst s
      = (Inr (), s\<lparr>files := AList.update dst c (AList.delete src (files s))\<rparr>)"
  by (simp add: moveFile_def fs_rename_def assms)

lemma moveFile_missing:
  assumes "map_of (files s) src = None"
  shows "moveFile src dst s = (Inl ENOENT, s)"
  by (simp add: moveFile_def fs_rename_def fs_copyFile_def assms)

lemma writeJsonFile_files:
  "\<exists>s'. writeJsonFile (a, name) data s = (Inr (), s')
     \<and> map_of (files s')
         = (map_of (files s))((a, name @ ''.tmp'') := None, (a, name) \<mapsto> [JsonDoc data])
     \<and> sleeps s' = sleeps s \<and> s3_sends s' = s3_sends s \<and> s3_objects s' = s3_objects s
     \<and> ticks s' = ticks s"
  by (simp add: writeJsonFile_def fs_writeFile_def fs_rename_def Let_def)

lemma handleFailedFile_existing:
  assumes "map_of (files s) (Processing, f) = Some c"
  shows "\<exists>s'. handleFailedFile e f err s = s'
     \<and> map_of (files s')
         = (map_of (files s))((Processing, f) := None, (Failed, f) \<mapsto> c,
              (Failed, f @ ''.meta.tmp'') := None,
              (Failed, f @ ''.meta'') \<mapsto>
                [JsonDoc [(''failed_at'', JString (isoOfTime (clock e (ticks s)))),
                          (''error_message'', JString (errorMessage err)),
                          (''retry_attempts'', JNumber 3)]])
     \<and> sleeps s' = sleeps s \<and> s3_sends s' = s3_sends s \<and> s3_objects s' = s3_objects s"
proof -
  let ?s1 = "s\<lparr>files := AList.update (Failed, f) c (AList.delete (Processing, f) (files s))\<rparr>"
  let ?s2 = "?s1\<lparr>ticks := Suc (ticks ?s1)\<rparr>"
  let ?meta = "[(''failed_at'', JString (isoOfTime (clock e (ticks s)))),
                (''error_message'', JString (errorMessage err)),
                (''retry_attempts'', JNumber (int maxRetries))]"
  have h: "handleFailedFile e f err s = snd (writeJsonFile (Failed, f @ ''.meta'') ?meta ?s2)"
    by (simp add: handleFailedFile_def moveFile_existing [OF assms] nowISOString_def
        new_Date_def Let_def)
  from writeJsonFile_files [of Failed "f @ ''.meta''" ?meta ?s2] obtain s' where
    w: "writeJsonFile (Failed, f @ ''.meta'') ?meta ?s2 = (Inr (), s')"
    and m: "map_of (files s')
         = (map_of (files ?s2))((Failed, (f @ ''.meta'') @ ''.tmp'') := None,
              (Failed, f @ ''.meta'') \<mapsto> [JsonDoc ?meta])"
    and r: "sleeps s' = sleeps ?s2" "s3_sends s' = s3_sends ?s2" "s3_objects s' = s3_objects ?s2"
    by blast
  show ?thesis
    unfolding h w using m r by (simp add: maxRetries_def)
qed

lemma failed_file_quarantined:
  assumes ex: "map_of (files s) (Processing, f) = Some c"
    and fail: "\<forall>n. \<not> s3_accepts e n"
  shows "\<exists>s' failed_at msg. processAll e [f] n status s = (n, ''failed'', s')
      \<and> sleeps s' = sleeps s @ [1000, 2000, 3000]
      \<and> (isBucketName f \<longrightarrow> s3_sends s' = s3_sends s + 4)
      \<and> s3_objects s' = s3_objects s
      \<and> map_of (files s') (Failed, f) = Some c
      \<and> map_of (files s') (Failed, f @ ''.meta'')
          = Some [JsonDoc [(''failed_at'', JString failed_at), (''error_message'', JString msg),
                           (''retry_attempts'', JNumber 3)]]
      \<and> map_of (files s') (Processing, f) = None
      \<and> map_of (files s') (Processing, f @ ''.gz'') = None"
proof -
  from processFile_refused [OF ex fail] obtain err s1 where
    p: "processFile e f s = (Inl err, s1)"
    and f1: "map_of (files s1) = (map_of (files s))((Processing, f @ ''.gz'') := None)"
    and o1: "s3_objects s1 = s3_objects s"
    and sl1: "sleeps s1 = sleeps s @ [1000, 2000, 3000]"
    and n1: "isBucketName f \<longrightarrow> s3_sends s1 = s3_sends s + 4"
    by blast
  have ex1: "map_of (files s1) (Processing, f) = Some c" by (simp add: f1 ex)
  from handleFailedFile_existing [OF ex1, of e err] obtain s2 where
    h: "handleFailedFile e f err s1 = s2"
    and f2: "map_of (files s2)
         = (map_of (files s1))((Processing, f) := None, (Failed, f) \<mapsto> c,
              (Failed, f @ ''.meta.tmp'') := None,
              (Failed, f @ ''.meta'') \<mapsto>
                [JsonDoc [(''failed_at'', JString (isoOfTime (clock e (ticks s1)))),
                          (''error_message'', JString (errorMessage err)),
                          (''retry_attempts'', JNumber 3)]])"
    and r2: "sleeps s2 = sleeps s1" "s3_sends s2 = s3_sends s1" "s3_objects s2 = s3_objects s1"
    by blast
  have "processAll e [f] n status s = (n, ''failed'', s2)" by (simp add: p h)
  moreover have "map_of (files s2) (Failed, f) = Some c" by (simp add: f2)
  moreover have "map_of (files s2) (Failed, f @ ''.meta'')
      = Some [JsonDoc [(''failed_at'', JString (isoOfTime (clock e (ticks s1)))),
                       (''error_message'', JString (errorMessage err)),
                       (''retry_attempts'', JNumber 3)]]" by (simp add: f2)
  moreover have "map_of (files s2) (Processing, f) = None" by (simp add: f2)
  moreover have "map_of (files s2) (Processing, f @ ''.gz'') = None" by (simp add: f2 f1)
  ultimately show ?thesis using r2 sl1 n1 o1 by auto
qed

subsection \<open>The sweep\<close>

lemma moveFile_other:
  assumes "p \<noteq> src" "p \<noteq> dst"
  shows "map_of (files (snd (moveFile src dst s))) p = map_of (files s) p"
proof (cases "map_of (files s) src")
  case None
  then show ?thesis by (simp add: moveFile_missing)
next
  case (Some c)
  then show ?thesis using assms by (simp add: moveFile_existing)
qed

lemma sweepLoop_subset: "set (fst (sweepLoop fs acc s)) \<subseteq> set acc \<union> set fs"
proof (induction fs arbitrary: acc s)
  case Nil
  then show ?case by simp
next
  case (Cons f fs)
  show ?case
  proof (cases "moveFile (Incoming, f) (Processing, f) s")
    case (Pair r s1)
    then show ?thesis using Cons.IH [of "acc @ [f]" s1] Cons.IH [of acc s1]
      by (cases r) auto
  qed
qed

lemma sweepLoop_other:
  assumes "\<forall>g \<in> set fs. p \<noteq> (Incoming, g) \<and> p \<noteq> (Processing, g)"
  shows "map_of (files (snd (sweepLoop fs acc s))) p = map_of (files s) p"
  using assms
proof (induction fs arbitrary: acc s)
  case Nil
  then show ?case by simp
next
  case (Cons f fs)
  have m: "map_of (files (snd (moveFile (Incoming, f) (Processing, f) s))) p = map_of (files s) p"
    using Cons.prems by (intro moveFile_other) simp_all
  have r: "\<forall>g \<in> set fs. p \<noteq> (Incoming, g) \<and> p \<noteq> (Processing, g)" using Cons.prems by simp
  show ?case
  proof (cases "moveFile (Incoming, f) (Processing, f) s")
    case (Pair res s1)
    then show ?thesis using Cons.IH [OF r, of _ s1] m by (cases res) simp_all
  qed
qed

lemma currentHourKey_eq:
  assumes "getHours e (Some (clock e (ticks s))) = getHours e (Some now)"
    and "getFullYear e (Some (clock e (Suc (ticks s)))) = getFullYear e (Some now)"
    and "getMonth e (Some (clock e (Suc (ticks s)))) = getMonth e (Some now)"
    and "getDate e (Some (clock e (Suc (ticks s)))) = getDate e (Some now)"
  shows "currentHourKey e s = (getHourKey e (Some now), s\<lparr>ticks := Suc (Suc (ticks s))\<rparr>)"
  using assms by (simp add: currentHourKey_def getHourKey_def new_Date_def Let_def)

lemma listFiles_filter: "f \<in> set (listFiles dir flt s) \<Longrightarrow> flt f"
  by (simp add: listFiles_def)

lemma sweep_keeps_current_hour:
  assumes "getHours e (Some (clock e (ticks s))) = getHours e (Some now)"
    and "getFullYear e (Some (clock e (Suc (ticks s)))) = getFullYear e (Some now)"
    and "getMonth e (Some (clock e (Suc (ticks s)))) = getMonth e (Some now)"
    and "getDate e (Some (clock e (Suc (ticks s)))) = getDate e (Some now)"
  shows "\<forall>f \<in> set (fst (sweepCompletedFiles e s)). \<not> startsWith f (getHourKey e (Some now))"
    and "\<forall>f. startsWith f (getHourKey e (Some now)) \<longrightarrow>
           map_of (files (snd (sweepCompletedFiles e s))) (Incoming, f)
             = map_of (files s) (Incoming, f)"
proof -
  let ?key = "getHourKey e (Some now)"
  let ?s2 = "s\<lparr>ticks := Suc (Suc (ticks s))\<rparr>"
  let ?fs = "listFiles Incoming (\<lambda>filename. endsWith filename ''.log''
                \<and> \<not> startsWith filename ?key) ?s2"
  have sw: "sweepCompletedFiles e s = sweepLoop ?fs [] ?s2"
    by (simp add: sweepCompletedFiles_def currentHourKey_eq [OF assms] Let_def)
  have sel: "\<forall>g \<in> set ?fs. \<not> startsWith g ?key"
    using listFiles_filter by fastforce
  show "\<forall>f \<in> set (fst (sweepCompletedFiles e s)). \<not> startsWith f ?key"
    unfolding sw using sweepLoop_subset [of ?fs "[]" ?s2] sel by auto
  show "\<forall>f. startsWith f ?key \<longrightarrow>
           map_of (files (snd (sweepCompletedFiles e s))) (Incoming, f)
             = map_of (files s) (Incoming, f)"
  proof (intro allI impI)
    fix f assume f: "startsWith f ?key"
    have "\<forall>g \<in> set ?fs. (Incoming, f) \<noteq> (Incoming, g) \<and> (Incoming, f) \<noteq> (Processing, g)"
      using sel f by auto
    from sweepLoop_other [OF this, of "[]" ?s2]
    show "map_of (files (snd (sweepCompletedFiles e s))) (Incoming, f)
             = map_of (files s) (Incoming, f)"
      unfolding sw by simp
  qed
qed

section \<open>A file whose upload always fails\<close>

text \<open>
  C3. Take a file \<open>f\<close> of the processing area and a store that refuses every upload. The
  loop of \<open>run\<close> over \<open>f\<close> then waits three times between attempts (1000, 2000 and 3000
  milliseconds): three retries after the first attempt, four sends in all when \<open>f\<close> has the
  name of a bucket file (otherwise the key cannot be built and nothing is sent, the retries
  still take place). Nothing is stored. The cycle is marked \<open>failed\<close> and the count of
  processed files is unchanged. Afterwards \<open>f\<close> is in the failed area with its content, beside
  it is \<open>f.meta\<close> whose \<open>retry_attempts\<close> is 3, and the processing area holds neither \<open>f\<close>
  nor \<open>f.gz\<close>.
\<close>

theorem upload_always_fails_quarantine:
  assumes "map_of (files s) (Processing, f) = Some c"
    and "\<forall>n. \<not> s3_accepts e n"
  shows "\<exists>s' failed_at msg. processAll e [f] n status s = (n, ''failed'', s')
      \<and> sleeps s' = sleeps s @ [1000, 2000, 3000]
      \<and> (isBucketName f \<longrightarrow> s3_sends s' = s3_sends s + 4)
      \<and> s3_objects s' = s3_objects s
      \<and> map_of (files s') (Failed, f) = Some c
      \<and> map_of (files s') (Failed, f @ ''.meta'')
          = Some [JsonDoc [(''failed_at'', JString failed_at), (''error_message'', JString msg),
                           (''retry_attempts'', JNumber 3)]]
      \<and> map_of (files s') (Processing, f) = None
      \<and> map_of (files s') (Processing, f @ ''.gz'') = None"
  by (rule failed_file_quarantined [OF assms])

theorem upload_always_fails_quarantine_witness:
  "map_of (files processingState) (Processing, ''2025-09-04-05.log'')
     = Some [EntryLine \<lparr>device_id = ''dev'', log_timestamp = ''2025-09-04T05:53:01.000Z'',
                         message = ''Sep 04 12:53:01 unit-a boot''\<rparr>]
   \<and> (\<forall>n. \<not> s3_accepts exampleEnv n)
   \<and> (\<exists>s' failed_at msg.
         processAll exampleEnv [''2025-09-04-05.log''] 0 ''success'' processingState
           = (0, ''failed'', s')
         \<and> sleeps s' = sleeps processingState @ [1000, 2000, 3000]
         \<and> (isBucketName ''2025-09-04-05.log'' \<longrightarrow> s3_sends s' = s3_sends processingState + 4)
         \<and> s3_objects s' = s3_objects processingState
         \<and> map_of (files s') (Failed, ''2025-09-04-05.log'')
             = Some [EntryLine \<lparr>device_id = ''dev'',
                                 log_timestamp = ''2025-09-04T05:53:01.000Z'',
                                 message = ''Sep 04 12:53:01 unit-a boot''\<rparr>]
         \<and> map_of (files s') (Failed, ''2025-09-04-05.log'' @ ''.meta'')
             = Some [JsonDoc [(''failed_at'', JString failed_at), (''error_message'', JString msg),
                              (''retry_attempts'', JNumber 3)]]
         \<and> map_of (files s') (Processing, ''2025-09-04-05.log'') = None
         \<and> map_of (files s') (Processing, ''2025-09-04-05.log'' @ ''.gz'') = None)"
proof -
  have f: "map_of (files processingState) (Processing, ''2025-09-04-05.log'')
     = Some [EntryLine \<lparr>device_id = ''dev'', log_timestamp = ''2025-09-04T05:53:01.000Z'',
                         message = ''Sep 04 12:53:01 unit-a boot''\<rparr>]"
    by (simp add: processingState_def emptyState_def)
  have r: "\<forall>n. \<not> s3_accepts exampleEnv n" by (simp add: exampleEnv_def)
  show ?thesis
    using upload_always_fails_quarantine [OF f r, of 0 "''success''"] f r by blast
qed

section \<open>The sweep and the current hour\<close>

text \<open>
  C4. \<open>sweepCompletedFiles\<close> reads the clock twice: the hour of its key comes from the first
  reading, the year, month and day from the second. When both readings show the same hour of
  the same day, no file of that hour is relocated (\<open>sweep_keeps_current_hour\<close>). When midnight
  passes between the two readings, the key is \<open>2025-09-05-23\<close>, an hour that is neither the
  one of the first reading (\<open>2025-09-04-23\<close>) nor the one of the second (\<open>2025-09-05-00\<close>), and
  the bucket files of both hours are relocated.
\<close>

theorem sweep_across_midnight_moves_current_hour:
  "getHourKey midnightEnv (Some (clock midnightEnv (ticks midnightState))) = ''2025-09-04-23''
   \<and> getHourKey midnightEnv (Some (clock midnightEnv (Suc (ticks midnightState))))
       = ''2025-09-05-00''
   \<and> fst (currentHourKey midnightEnv midnightState) = ''2025-09-05-23''
   \<and> fst (sweepCompletedFiles midnightEnv midnightState)
        = [''2025-09-04-23.log'', ''2025-09-05-00.log'']
   \<and> startsWith ''2025-09-04-23.log'' ''2025-09-04-23''
   \<and> startsWith ''2025-09-05-00.log'' ''2025-09-05-00''"
proof -
  have t: "ticks midnightState = 0" by (simp add: midnightState_def emptyState_def)
  have c0: "clock midnightEnv 0 = 1757030399999" by (simp add: midnightEnv_def)
  have c1: "clock midnightEnv (Suc 0) = 1757030400000" by (simp add: midnightEnv_def)
  have k0: "getHourKey midnightEnv (Some 1757030399999) = ''2025-09-04-23''" by code_simp
  have k1: "getHourKey midnightEnv (Some 1757030400000) = ''2025-09-05-00''" by code_simp
  have h: "getHours midnightEnv (Some 1757030399999) = Some 23" by code_simp
  have y: "getFullYear midnightEnv (Some 1757030400000) = Some 2025" by code_simp
  have m: "getMonth midnightEnv (Some 1757030400000) = Some 8" by code_simp
  have d: "getDate midnightEnv (Some 1757030400000) = Some 5" by code_simp
  have f: "String_num (Some 2025) @ ''-''
          @ padStart 2 CHR ''0'' (String_num (plusOne (Some 8)))
          @ ''-'' @ padStart 2 CHR ''0'' (String_num (Some 5))
          @ ''-'' @ padStart 2 CHR ''0'' (String_num (Some 23)) = ''2025-09-05-23''"
    by code_simp
  have k: "currentHourKey midnightEnv midnightState
      = (''2025-09-05-23'', midnightState\<lparr>ticks := Suc (Suc 0)\<rparr>)"
    unfolding currentHourKey_def new_Date_def Let_def
    by (simp only: t c0 c1 h y m d f prod.case ticks_update) simp
  have l: "fst (sweepLoop
        (listFiles Incoming
           (\<lambda>filename. endsWith filename ''.log'' \<and> \<not> startsWith filename ''2025-09-05-23'')
           (midnightState\<lparr>ticks := Suc (Suc 0)\<rparr>))
        [] (midnightState\<lparr>ticks := Suc (Suc 0)\<rparr>))
      = [''2025-09-04-23.log'', ''2025-09-05-00.log'']"
    by code_simp
  have sw: "fst (sweepCompletedFiles midnightEnv midnightState)
        = [''2025-09-04-23.log'', ''2025-09-05-00.log'']"
    unfolding sweepCompletedFiles_def k Let_def prod.case by (rule l)
  have s0: "startsWith ''2025-09-04-23.log'' ''2025-09-04-23''" by code_simp
  have s1: "startsWith ''2025-09-05-00.log'' ''2025-09-05-00''" by code_simp
  show ?thesis using k0 k1 k sw s0 s1 by (simp only: t c0 c1 fst_conv simp_thms)
qed

section \<open>The ingestion rate that is read\<close>

text \<open>
  C9. \<open>getIngestionRate\<close> divides the length of \<open>recentRequests\<close> by five; the list is
  pruned by \<open>trackRequest\<close> only, that is at the time of the last call and not at the time of
  the query. After one call at 2025-09-04T12:46:40Z the value read is 0.2 whenever it is read,
  also ten minutes later, when no call lies within the last five minutes and the rate
  described is 0.
\<close>

theorem ingestion_rate_is_stale:
  "recentRequests (trackRequest exampleEnv emptyState) = [1756990000000]
   \<and> getIngestionRate (trackRequest exampleEnv emptyState) = 1 / 5
   \<and> rateAt [1756990000000] (1756990000000 + 10 * 60 * 1000) = 0"
  by code_simp

section \<open>The re-entrancy guard of the cycle\<close>

text \<open>
  C5. When \<open>run\<close> is called while the flag \<open>isProcessing\<close> is set, it returns at once: the
  state is the one before the call, so no file is swept or processed, no status is written
  and the clock is not even read.
\<close>

theorem run_while_processing_is_noop:
  assumes "isProcessing s"
  shows "run e s = s"
  using assms by (simp add: run_def)

theorem run_while_processing_is_noop_witness:
  "isProcessing (emptyState\<lparr>isProcessing := True\<rparr>)
   \<and> run exampleEnv (emptyState\<lparr>isProcessing := True\<rparr>) = emptyState\<lparr>isProcessing := True\<rparr>"
  using run_while_processing_is_noop [of "emptyState\<lparr>isProcessing := True\<rparr>" exampleEnv]
  by simp

end
